theory Spec2Isabelle
  imports Complex_Main "HOL-Library.AList" "HOL-Library.Sublist" "HOL-Library.Log_Nat"
begin


section \<open>Analysis results and sessions\<close>

text \<open>
  The data of \<^verbatim>\<open>code-quality-agent.ts\<close> and \<^verbatim>\<open>quality-analysis-state.ts\<close>.
  A JavaScript \<^verbatim>\<open>Error\<close> is its message. A finite number is its value, a rational;
  times and counts are integers.
\<close>

datatype error = Error string

datatype severity = low | medium | high | critical

record Finding =
  severity :: severity
  issue :: string
  line :: "int option"
  suggestion :: string

text \<open>
  What the \<^verbatim>\<open>overallScore\<close> slot of a result can hold when it reaches
  \<^verbatim>\<open>saveAnalysis\<close>: nothing, a value whose \<^verbatim>\<open>typeof\<close> is not \<^verbatim>\<open>'number'\<close>,
  or a number, which is \<^verbatim>\<open>NaN\<close>, an infinity or a finite number. A request body,
  being JSON, only brings the first two and the last; a direct call brings any of them.
\<close>

datatype score_slot = Missing | NonNumber | NotANumber | PlusInfinity | MinusInfinity | Number rat

text \<open>
  What the slot holds once lines 354-357 have run: \<^verbatim>\<open>NaN\<close>, which passes the check
  (its \<^verbatim>\<open>typeof\<close> is \<^verbatim>\<open>'number'\<close> and both comparisons are false), or a finite number.
\<close>

datatype score = NaN | Score rat

text \<open>
  \<^verbatim>\<open>CodeAnalysisResult\<close>. The parameter is the type of the score: \<open>score_slot\<close>
  for a result as it arrives, \<open>score\<close> once \<^verbatim>\<open>saveAnalysis\<close> has checked it.
\<close>

record 's CodeAnalysisResult =
  securityIssues :: "Finding list"
  performanceIssues :: "Finding list"
  qualityIssues :: "Finding list"
  overallScore :: 's
  summary :: string

record AnalysisSession =
  session_id :: string
  userId :: "string option"
  createdAt :: int
  lastActivity :: int
  analyses :: "score CodeAnalysisResult list"
  totalAnalyses :: nat
  averageScore :: int

text \<open>
  The durable object: \<open>sessions\<close> is the in-memory \<^verbatim>\<open>Map\<close> in insertion order,
  \<open>storage\<close> the value kept by \<^verbatim>\<open>ctx.storage\<close> under the key \<^verbatim>\<open>"sessions"\<close>.
\<close>

record QualityAnalysisState =
  sessions :: "(string \<times> AnalysisSession) list"
  storage :: "(string \<times> AnalysisSession) list option"

text \<open>
  What the environment answers during one \<^verbatim>\<open>saveAnalysis\<close> call: the clock read
  inside \<^verbatim>\<open>getSession\<close> and the one of line 362, and for each of the two
  \<^verbatim>\<open>storage.put\<close> calls whether it is rejected (\<open>Some\<close> of the message) or not.
\<close>

record call_env =
  now_get :: int
  put_get :: "string option"
  now_save :: int
  put_save :: "string option"

subsection \<open>The store's operations\<close>

definition saveState :: "string option \<Rightarrow> QualityAnalysisState \<Rightarrow> (error + unit) \<times> QualityAnalysisState" where
  "saveState put st =
     (case put of
        None \<Rightarrow> (Inr (), st\<lparr>storage := Some (sessions st)\<rparr>)
      | Some msg \<Rightarrow> (Inl (Error (''Failed to save state: '' @ msg)), st))"

text \<open>
  \<^verbatim>\<open>getSession\<close>. The two clock reads of a new session follow each other with
  no I/O in between and are one value here.
\<close>

definition getSession ::
  "int \<Rightarrow> string option \<Rightarrow> string \<Rightarrow> string option \<Rightarrow> QualityAnalysisState
     \<Rightarrow> (error + AnalysisSession) \<times> QualityAnalysisState" where
  "getSession now put sessionId uid st =
     (let session =
        (case map_of (sessions st) sessionId of
           None \<Rightarrow> \<lparr>session_id = sessionId, userId = uid, createdAt = now, lastActivity = now,
                     analyses = [], totalAnalyses = 0, averageScore = 0\<rparr>
         | Some s \<Rightarrow> s\<lparr>lastActivity := now\<rparr>);
        st1 = st\<lparr>sessions := AList.update sessionId session (sessions st)\<rparr>
      in case saveState put st1 of
           (Inl e, st2) \<Rightarrow> (Inl e, st2)
         | (Inr _, st2) \<Rightarrow> (Inr session, st2))"

text \<open>Lines 354-357: the score check.\<close>

definition validScore :: "score_slot \<Rightarrow> score" where
  "validScore v =
     (case v of
        Missing \<Rightarrow> Score 50
      | NonNumber \<Rightarrow> Score 50
      | NotANumber \<Rightarrow> NaN
      | PlusInfinity \<Rightarrow> Score 50
      | MinusInfinity \<Rightarrow> Score 50
      | Number r \<Rightarrow> (if r < 0 \<or> r > 100 then Score 50 else Score r))"

definition validated :: "score_slot CodeAnalysisResult \<Rightarrow> score CodeAnalysisResult" where
  "validated a =
     \<lparr>securityIssues = securityIssues a, performanceIssues = performanceIssues a,
      qualityIssues = qualityIssues a, overallScore = validScore (overallScore a),
      summary = summary a\<rparr>"

text \<open>
  The arithmetic of numbers. The sum and the quotient of two numbers are the exact ones
  rounded to the nearest double, a tie going to the even one: \<open>binade q\<close> is the
  \<open>e\<close> with \<open>2 ^ e \<le> q < 2 ^ (e + 1)\<close>, and a double in that range is a multiple of
  \<open>2 ^ (e - 52)\<close>. Overflow and the subnormal range, far from the sums of scores, are
  left out.
\<close>

definition binade :: "rat \<Rightarrow> int" where
  "binade q =
     (if 1 \<le> q then int (floorlog 2 (nat \<lfloor>q\<rfloor>)) - 1
      else - int (floorlog 2 (nat (\<lceil>1 / q\<rceil> - 1))))"

definition scale :: "int \<Rightarrow> rat \<Rightarrow> rat" where
  "scale e q = (if 0 \<le> e then q * 2 ^ nat e else q / 2 ^ nat (- e))"

definition round_even :: "rat \<Rightarrow> int" where
  "round_even q =
     (let f = \<lfloor>q\<rfloor>; r = q - of_int f
      in if r < 1 / 2 then f else if 1 / 2 < r then f + 1 else if even f then f else f + 1)"

definition fl :: "rat \<Rightarrow> rat" where
  "fl x =
     (if x = 0 then 0
      else sgn x * scale (binade \<bar>x\<bar> - 52) (of_int (round_even (scale (52 - binade \<bar>x\<bar>) \<bar>x\<bar>))))"

text \<open>\<^verbatim>\<open>Math.round\<close>: the nearest integer, a tie going up.\<close>

definition Math_round :: "rat \<Rightarrow> int" where
  "Math_round x = \<lfloor>x + 1 / 2\<rfloor>"

text \<open>\<^verbatim>\<open>xs.slice(-n)\<close>: the last \<open>n\<close> elements, all of them when there are fewer.\<close>

definition slice_last :: "nat \<Rightarrow> 'a list \<Rightarrow> 'a list" where
  "slice_last n xs = drop (length xs - n) xs"

text \<open>
  \<^verbatim>\<open>a.overallScore || 50\<close>, which is 50 when the score is 0 or \<^verbatim>\<open>NaN\<close>, and the
  \<^verbatim>\<open>reduce\<close> of line 365.
\<close>

definition or_fifty :: "score \<Rightarrow> rat" where
  "or_fifty v = (case v of NaN \<Rightarrow> 50 | Score r \<Rightarrow> if r = 0 then 50 else r)"

definition totalScore :: "score CodeAnalysisResult list \<Rightarrow> rat" where
  "totalScore as = foldl (\<lambda>sum a. fl (sum + or_fifty (overallScore a))) 0 as"

text \<open>Lines 359-371: what \<^verbatim>\<open>saveAnalysis\<close> does to the session object.\<close>

definition record_analysis :: "int \<Rightarrow> score CodeAnalysisResult \<Rightarrow> AnalysisSession \<Rightarrow> AnalysisSession" where
  "record_analysis now a session =
     (let s1 = session\<lparr>analyses := analyses session @ [a]\<rparr>;
          s2 = s1\<lparr>totalAnalyses := totalAnalyses s1 + 1\<rparr>;
          s3 = s2\<lparr>lastActivity := now\<rparr>;
          s4 = s3\<lparr>averageScore :=
                    Math_round (fl (totalScore (analyses s3) / of_nat (totalAnalyses s3)))\<rparr>
      in if length (analyses s4) > 50 then s4\<lparr>analyses := slice_last 50 (analyses s4)\<rparr> else s4)"

text \<open>The \<^verbatim>\<open>try\<close> block of \<^verbatim>\<open>saveAnalysis\<close>.\<close>

definition saveAnalysis_try ::
  "call_env \<Rightarrow> string \<Rightarrow> score_slot CodeAnalysisResult option \<Rightarrow> QualityAnalysisState
     \<Rightarrow> (error + unit) \<times> QualityAnalysisState" where
  "saveAnalysis_try e sessionId analysis st =
     (case analysis of
        None \<Rightarrow> (Inl (Error ''Session ID and analysis result are required''), st)
      | Some a \<Rightarrow>
          if sessionId = [] then (Inl (Error ''Session ID and analysis result are required''), st)
          else
            (case getSession (now_get e) (put_get e) sessionId None st of
               (Inl err, st1) \<Rightarrow> (Inl err, st1)
             | (Inr session, st1) \<Rightarrow>
                 saveState (put_save e)
                   (st1\<lparr>sessions :=
                      AList.update sessionId (record_analysis (now_save e) (validated a) session)
                        (sessions st1)\<rparr>)))"

text \<open>\<^verbatim>\<open>saveAnalysis\<close>: the \<^verbatim>\<open>catch\<close> logs and throws again under a new message.\<close>

definition saveAnalysis ::
  "call_env \<Rightarrow> string \<Rightarrow> score_slot CodeAnalysisResult option \<Rightarrow> QualityAnalysisState
     \<Rightarrow> (error + unit) \<times> QualityAnalysisState" where
  "saveAnalysis e sessionId analysis st =
     (case saveAnalysis_try e sessionId analysis st of
        (Inl (Error m), st1) \<Rightarrow> (Inl (Error (''Failed to save analysis: '' @ m)), st1)
      | (Inr u, st1) \<Rightarrow> (Inr u, st1))"

text \<open>
  \<^verbatim>\<open>cleanupOldSessions\<close>: the loop visits the entries of the map and deletes the
  visited key when the session is too old.
\<close>

definition cleanup_step ::
  "int \<Rightarrow> int \<Rightarrow> string \<times> AnalysisSession \<Rightarrow> (string \<times> AnalysisSession) list \<times> nat
     \<Rightarrow> (string \<times> AnalysisSession) list \<times> nat" where
  "cleanup_step now maxAgeMs entry acc =
     (if now - lastActivity (snd entry) > maxAgeMs
      then (AList.delete (fst entry) (fst acc), snd acc + 1)
      else acc)"

definition cleanupOldSessions ::
  "int \<Rightarrow> string option \<Rightarrow> int \<Rightarrow> QualityAnalysisState \<Rightarrow> (error + nat) \<times> QualityAnalysisState" where
  "cleanupOldSessions now put maxAgeMs st =
     (let (m, removedCount) = fold (cleanup_step now maxAgeMs) (sessions st) (sessions st, 0);
          st1 = st\<lparr>sessions := m\<rparr>
      in if removedCount > 0
         then (case saveState put st1 of
                 (Inl e, st2) \<Rightarrow> (Inl e, st2)
               | (Inr _, st2) \<Rightarrow> (Inr removedCount, st2))
         else (Inr removedCount, st1))"

text \<open>A caller that saves one result after the other to the same session.\<close>

fun saveAll ::
  "string \<Rightarrow> (call_env \<times> score_slot CodeAnalysisResult) list \<Rightarrow> QualityAnalysisState
     \<Rightarrow> QualityAnalysisState" where
  "saveAll sessionId [] st = st"
| "saveAll sessionId (c # cs) st =
     saveAll sessionId cs (snd (saveAnalysis (fst c) sessionId (Some (snd c)) st))"

subsection \<open>Auxiliary definitions for the store\<close>

text \<open>
  The session object that \<^verbatim>\<open>getSession\<close> hands to its caller: the stored one with a
  fresh \<^verbatim>\<open>lastActivity\<close>, or the new one.
\<close>

definition entered :: "int \<Rightarrow> string \<Rightarrow> QualityAnalysisState \<Rightarrow> AnalysisSession" where
  "entered now sessionId st =
     (case map_of (sessions st) sessionId of
        None \<Rightarrow> \<lparr>session_id = sessionId, userId = None, createdAt = now, lastActivity = now,
                  analyses = [], totalAnalyses = 0, averageScore = 0\<rparr>
      | Some s \<Rightarrow> s\<lparr>lastActivity := now\<rparr>)"

text \<open>
  The session object after a run of \<^verbatim>\<open>saveAnalysis\<close> calls that all reach line 360.
\<close>

fun replay :: "(call_env \<times> score_slot CodeAnalysisResult) list \<Rightarrow> AnalysisSession \<Rightarrow> AnalysisSession" where
  "replay [] s = s"
| "replay (c # cs) s =
     replay cs (record_analysis (now_save (fst c)) (validated (snd c)) (s\<lparr>lastActivity := now_get (fst c)\<rparr>))"

text \<open>
  Concrete inputs: the store of a durable object that has seen no request, a result with a
  given score slot and no findings, and an environment whose clock reads \<open>t\<close>.
\<close>

definition empty_store :: QualityAnalysisState where
  "empty_store = \<lparr>sessions = [], storage = None\<rparr>"

definition result_scored :: "score_slot \<Rightarrow> score_slot CodeAnalysisResult" where
  "result_scored v =
     \<lparr>securityIssues = [], performanceIssues = [], qualityIssues = [], overallScore = v,
      summary = ''''\<rparr>"

definition env_at :: "int \<Rightarrow> string option \<Rightarrow> string option \<Rightarrow> call_env" where
  "env_at t p1 p2 = \<lparr>now_get = t, put_get = p1, now_save = t, put_save = p2\<rparr>"

text \<open>
  The figure the specification asks of \<^verbatim>\<open>averageScore\<close>: the rounded mean of the scores
  of all results ever saved, each as it was stored.
\<close>

definition spec_averageScore :: "score_slot CodeAnalysisResult list \<Rightarrow> int" where
  "spec_averageScore saved =
     Math_round (sum_list (map (\<lambda>a. case validScore (overallScore a) of Score r \<Rightarrow> r | NaN \<Rightarrow> 50) saved)
                 / of_nat (length saved))"

text \<open>The test of line 464, and a session last used at time \<open>t\<close>.\<close>

definition expired :: "int \<Rightarrow> int \<Rightarrow> string \<times> AnalysisSession \<Rightarrow> bool" where
  "expired now maxAgeMs = (\<lambda>entry. now - lastActivity (snd entry) > maxAgeMs)"

definition session_at :: "string \<Rightarrow> int \<Rightarrow> AnalysisSession" where
  "session_at sid t =
     \<lparr>session_id = sid, userId = None, createdAt = t, lastActivity = t, analyses = [],
      totalAnalyses = 0, averageScore = 0\<rparr>"


section \<open>The analysis workflow\<close>

text \<open>
  \<^verbatim>\<open>analysis-workflow.ts\<close>. An analysis call is a promise; what \<^verbatim>\<open>Promise.allSettled\<close>
  reports of it is its settlement, fulfilled with a value or rejected with a reason.
\<close>

datatype analysisType = Security | Performance | Quality

datatype 'v settled = fulfilled 'v | rejected error

text \<open>An entry of the result object: the value of the analysis, or \<^verbatim>\<open>{ error: ... }\<close>.\<close>

datatype 'v entry = Analysis 'v | ErrorEntry string

record 'v results =
  security :: "'v entry option"
  performance :: "'v entry option"
  quality :: "'v entry option"

record AnalysisWorkflowInput =
  code :: string
  language :: "string option"
  analysisTypes :: "analysisType list"
  input_sessionId :: string
  input_userId :: "string option"

text \<open>
  The three analysis methods of the workflow, each giving the settlement of its promise
  for a code.
\<close>

record 'v analyzers =
  analyzeSecurity :: "string \<Rightarrow> 'v settled"
  analyzePerformance :: "string \<Rightarrow> 'v settled"
  analyzeQuality :: "string \<Rightarrow> 'v settled"

text \<open>
  Lines 103-105, 110-112 and 117-119: the entry for \<^verbatim>\<open>analysisResults[index]\<close>. Reading
  \<^verbatim>\<open>status\<close> past the end of the array is a \<^verbatim>\<open>TypeError\<close>.
\<close>

definition settled_entry :: "'v settled list \<Rightarrow> nat \<Rightarrow> string \<Rightarrow> error + 'v entry" where
  "settled_entry analysisResults index msg =
     (if index < length analysisResults
      then (case analysisResults ! index of
              fulfilled v \<Rightarrow> Inr (Analysis v)
            | rejected reason \<Rightarrow> Inr (ErrorEntry msg))
      else Inl (Error ''TypeError: analysisResults[index] is undefined''))"

definition performParallelAnalysis :: "'v analyzers \<Rightarrow> AnalysisWorkflowInput \<Rightarrow> error + 'v results" where
  "performParallelAnalysis A input =
     (let types = analysisTypes input;
          tasks0 = [];
          tasks1 = (if Security \<in> set types then tasks0 @ [analyzeSecurity A (code input)] else tasks0);
          tasks2 = (if Performance \<in> set types then tasks1 @ [analyzePerformance A (code input)] else tasks1);
          tasks3 = (if Quality \<in> set types then tasks2 @ [analyzeQuality A (code input)] else tasks2);
          analysisResults = tasks3;
          results0 = \<lparr>security = None, performance = None, quality = None\<rparr>;
          index0 = 0
      in case (if Security \<in> set types
               then (case settled_entry analysisResults index0 ''Security analysis failed'' of
                       Inl e \<Rightarrow> Inl e
                     | Inr v \<Rightarrow> Inr (results0\<lparr>security := Some v\<rparr>, index0 + 1))
               else Inr (results0, index0)) of
           Inl e \<Rightarrow> Inl e
         | Inr (results1, index1) \<Rightarrow>
             (case (if Performance \<in> set types
                    then (case settled_entry analysisResults index1 ''Performance analysis failed'' of
                            Inl e \<Rightarrow> Inl e
                          | Inr v \<Rightarrow> Inr (results1\<lparr>performance := Some v\<rparr>, index1 + 1))
                    else Inr (results1, index1)) of
                Inl e \<Rightarrow> Inl e
              | Inr (results2, index2) \<Rightarrow>
                  if Quality \<in> set types
                  then (case settled_entry analysisResults index2 ''Quality analysis failed'' of
                          Inl e \<Rightarrow> Inl e
                        | Inr v \<Rightarrow> Inr (results2\<lparr>quality := Some v\<rparr>))
                  else Inr results2))"

text \<open>The values the workflow's own analysis methods resolve to (lines 125-186).\<close>

record issue_report =
  issue_type :: string
  issue_severity :: string
  issue_line :: int
  description :: string
  recommendation :: string

record analysis_report =
  vulnerabilities :: "issue_report list option"
  issues :: "issue_report list option"
  score :: int
  report_summary :: string

definition workflow_analyzers :: "analysis_report analyzers" where
  "workflow_analyzers =
     \<lparr>analyzeSecurity = (\<lambda>c. fulfilled
        \<lparr>vulnerabilities = Some [\<lparr>issue_type = ''SQL Injection'', issue_severity = ''high'',
             issue_line = 15, description = ''Potential SQL injection vulnerability detected'',
             recommendation = ''Use parameterized queries''\<rparr>],
         issues = None, score = 75, report_summary = ''Found 1 high-severity security issue''\<rparr>),
      analyzePerformance = (\<lambda>c. fulfilled
        \<lparr>vulnerabilities = None,
         issues = Some [\<lparr>issue_type = ''N+1 Query Problem'', issue_severity = ''medium'',
             issue_line = 23, description = ''Potential N+1 query issue in loop'',
             recommendation = ''Use eager loading or batch queries''\<rparr>],
         score = 80, report_summary = ''Found 1 performance optimization opportunity''\<rparr>),
      analyzeQuality = (\<lambda>c. fulfilled
        \<lparr>vulnerabilities = None,
         issues = Some [\<lparr>issue_type = ''Code Complexity'', issue_severity = ''low'',
             issue_line = 8, description = ''Function complexity is high'',
             recommendation = ''Consider breaking into smaller functions''\<rparr>],
         score = 85, report_summary = ''Code quality is good with minor improvements needed''\<rparr>)\<rparr>"

text \<open>
  Analysis methods for the cases the workflow's own never produce: the security call
  rejected, the other two fulfilled.
\<close>

definition security_down :: "analysis_report analyzers" where
  "security_down = workflow_analyzers\<lparr>analyzeSecurity := (\<lambda>c. rejected (Error ''model unavailable''))\<rparr>"

definition workflow_input :: "string \<Rightarrow> analysisType list \<Rightarrow> AnalysisWorkflowInput" where
  "workflow_input c types =
     \<lparr>code = c, language = None, analysisTypes = types, input_sessionId = ''s1'',
      input_userId = None\<rparr>"

text \<open>What a settlement becomes in the result object.\<close>

definition entry_of :: "'v settled \<Rightarrow> string \<Rightarrow> 'v entry" where
  "entry_of s msg = (case s of fulfilled v \<Rightarrow> Analysis v | rejected reason \<Rightarrow> ErrorEntry msg)"


section \<open>The chat agent's write-through\<close>

text \<open>
  The \<^verbatim>\<open>POST /analysis\<close> branch of the durable object's \<^verbatim>\<open>fetch\<close> (lines 480-541), which
  is the one the agent calls. The session id is the query parameter, or \<^verbatim>\<open>'default'\<close>; the
  analysis is the parsed request body. A response made without a status text has the
  empty one.
\<close>

datatype response_body = success_json | text_body string

record Response =
  status :: nat
  statusText :: string
  body :: response_body

definition Response_ok :: "Response \<Rightarrow> bool" where
  "Response_ok r = (200 \<le> status r \<and> status r \<le> 299)"

definition fetch_POST_analysis ::
  "call_env \<Rightarrow> string option \<Rightarrow> score_slot CodeAnalysisResult option \<Rightarrow> QualityAnalysisState
     \<Rightarrow> Response \<times> QualityAnalysisState" where
  "fetch_POST_analysis e param analysis st =
     (let sessionId = (case param of None \<Rightarrow> ''default'' | Some p \<Rightarrow> if p = [] then ''default'' else p)
      in case saveAnalysis e sessionId analysis st of
           (Inr _, st1) \<Rightarrow> (\<lparr>status = 200, statusText = [], body = success_json\<rparr>, st1)
         | (Inl (Error m), st1) \<Rightarrow>
             (\<lparr>status = 500, statusText = [], body = text_body (''Internal Server Error: '' @ m)\<rparr>, st1))"

text \<open>
  \<^verbatim>\<open>CodeQualityAgent\<close> (\<^verbatim>\<open>code-quality-agent.ts\<close>). The body the agent posts is the JSON
  text of its result, which the durable object parses back: a finite score arrives as it
  is, and \<^verbatim>\<open>NaN\<close>, written as \<^verbatim>\<open>null\<close>, arrives as a value that is no number.
\<close>

definition posted :: "score CodeAnalysisResult \<Rightarrow> score_slot CodeAnalysisResult" where
  "posted a =
     \<lparr>securityIssues = securityIssues a, performanceIssues = performanceIssues a,
      qualityIssues = qualityIssues a,
      overallScore = (case overallScore a of Score r \<Rightarrow> Number r | NaN \<Rightarrow> NonNumber),
      summary = summary a\<rparr>"

text \<open>
  \<^verbatim>\<open>saveAnalysisResult\<close>, lines 235-255: first its \<^verbatim>\<open>try\<close> block, then the whole method,
  whose \<^verbatim>\<open>catch\<close> writes to the console and returns. The second component is what is
  written to the console.
\<close>

definition saveAnalysisResult_try ::
  "call_env \<Rightarrow> score CodeAnalysisResult \<Rightarrow> QualityAnalysisState
     \<Rightarrow> (error + unit) \<times> string list \<times> QualityAnalysisState" where
  "saveAnalysisResult_try e analysis st =
     (let sessionId = ''default-session'';
          (response, st1) = fetch_POST_analysis e (Some sessionId) (Some (posted analysis)) st
      in if \<not> Response_ok response
         then (Inl (Error (''Failed to save analysis: '' @ statusText response)), [], st1)
         else (Inr (), [''Analysis result saved successfully''], st1))"

definition saveAnalysisResult ::
  "call_env \<Rightarrow> score CodeAnalysisResult \<Rightarrow> QualityAnalysisState
     \<Rightarrow> (error + unit) \<times> string list \<times> QualityAnalysisState" where
  "saveAnalysisResult e analysis st =
     (case saveAnalysisResult_try e analysis st of
        (Inl (Error m), console, st1) \<Rightarrow>
          (Inr (), console @ [''Error saving analysis result: '' @ m], st1)
      | (Inr u, console, st1) \<Rightarrow> (Inr u, console, st1))"

text \<open>\<^verbatim>\<open>analyzeWithWorkersAI\<close>, lines 69-83, given what \<^verbatim>\<open>AI.run\<close> did.\<close>

datatype ai_outcome = ai_rejects string | ai_resolves "string option"

definition analyzeWithWorkersAI :: "ai_outcome \<Rightarrow> error + string" where
  "analyzeWithWorkersAI r =
     (case r of
        ai_resolves (Some response) \<Rightarrow>
          Inr (if response = [] then ''Analysis completed but no response received.'' else response)
      | ai_resolves None \<Rightarrow> Inr ''Analysis completed but no response received.''
      | ai_rejects m \<Rightarrow> Inr (''Analysis error: '' @ m))"

text \<open>The result the agent stores after an analysis (lines 149-155).\<close>

definition analysisResult :: "score CodeAnalysisResult" where
  "analysisResult =
     \<lparr>securityIssues = [\<lparr>severity = medium, issue = ''Analysis completed'', line = Some 1,
          suggestion = ''Review security recommendations above''\<rparr>],
      performanceIssues = [\<lparr>severity = medium, issue = ''Analysis completed'', line = Some 1,
          suggestion = ''Review performance recommendations above''\<rparr>],
      qualityIssues = [\<lparr>severity = medium, issue = ''Analysis completed'', line = Some 1,
          suggestion = ''Review quality recommendations above''\<rparr>],
      overallScore = Score 75,
      summary = ''Comprehensive code analysis completed using Workers AI''\<rparr>"

text \<open>\<^verbatim>\<open>s.split('\n')\<close>.\<close>

fun split_lines :: "string \<Rightarrow> string list" where
  "split_lines [] = [[]]"
| "split_lines (c # cs) =
     (if c = CHR 0x0A then [] # split_lines cs
      else (case split_lines cs of
              [] \<Rightarrow> [[c]]
            | l # ls \<Rightarrow> (c # l) # ls))"

text \<open>
  \<^verbatim>\<open>performCodeAnalysis\<close> from line 148 on, \<open>combinedAnalysis\<close> being the report put
  together from the three texts of the model: the result is stored, then the report is
  written to the stream line by line. The first component is what the stream receives; the
  text of the \<^verbatim>\<open>catch\<close> starts with the three bytes of its cross mark.
\<close>

definition performCodeAnalysis ::
  "call_env \<Rightarrow> string \<Rightarrow> QualityAnalysisState \<Rightarrow> string list \<times> string list \<times> QualityAnalysisState" where
  "performCodeAnalysis e combinedAnalysis st =
     (case saveAnalysisResult e analysisResult st of
        (Inl (Error m), console, st1) \<Rightarrow>
          ([[CHR 0xE2, CHR 0x9D, CHR 0x8C] @ '' Analysis Error: '' @ m @ [CHR 0x0A, CHR 0x0A]
              @ ''Please try again or contact support if the issue persists.''],
           console @ [''Code analysis error: '' @ m], st1)
      | (Inr u, console, st1) \<Rightarrow>
          (map (\<lambda>chunk. chunk @ [CHR 0x0A]) (split_lines combinedAnalysis), console, st1))"


section \<open>The content classifier\<close>

text \<open>
  \<^verbatim>\<open>isCodeAnalysisRequest\<close> of \<^verbatim>\<open>src/index.ts\<close> tests four regular expressions. The
  patterns it uses are built from character classes, sequence, alternation and repetition,
  with no anchor, no group reference and no flag but \<^verbatim>\<open>i\<close>; for such a pattern
  \<^verbatim>\<open>test\<close> says whether some stretch of the text belongs to the pattern's language, and
  greedy and lazy repetition give the same answer. A text is the list of its bytes in UTF-8.
\<close>

datatype regex = Never | Empty | One "char \<Rightarrow> bool" | Then regex regex | Or regex regex | Many regex

fun nullable :: "regex \<Rightarrow> bool" where
  "nullable Never = False"
| "nullable Empty = True"
| "nullable (One p) = False"
| "nullable (Then r s) = (nullable r \<and> nullable s)"
| "nullable (Or r s) = (nullable r \<or> nullable s)"
| "nullable (Many r) = True"

text \<open>What is left of a pattern once the character \<open>c\<close> has been read.\<close>

fun after :: "char \<Rightarrow> regex \<Rightarrow> regex" where
  "after c Never = Never"
| "after c Empty = Never"
| "after c (One p) = (if p c then Empty else Never)"
| "after c (Then r s) =
     (if nullable r then Or (Then (after c r) s) (after c s) else Then (after c r) s)"
| "after c (Or r s) = Or (after c r) (after c s)"
| "after c (Many r) = Then (after c r) (Many r)"

text \<open>A match that starts at the head of the text, and a match that starts anywhere.\<close>

fun match_here :: "regex \<Rightarrow> string \<Rightarrow> bool" where
  "match_here r [] = nullable r"
| "match_here r (c # cs) = (nullable r \<or> match_here (after c r) cs)"

fun RegExp_test :: "regex \<Rightarrow> string \<Rightarrow> bool" where
  "RegExp_test r [] = nullable r"
| "RegExp_test r (c # cs) = (match_here r (c # cs) \<or> RegExp_test r cs)"

text \<open>
  The pieces of the four patterns. Under the flag \<^verbatim>\<open>i\<close> two characters match when they
  have the same upper case, which changes the letters \<^verbatim>\<open>a\<close> to \<^verbatim>\<open>z\<close> alone: a character
  outside ASCII is never taken for an ASCII one.
\<close>

definition Canonicalize :: "char \<Rightarrow> char" where
  "Canonicalize c =
     (case map_of (zip ''abcdefghijklmnopqrstuvwxyz'' ''ABCDEFGHIJKLMNOPQRSTUVWXYZ'') c of
        Some C \<Rightarrow> C
      | None \<Rightarrow> c)"

definition literal :: "string \<Rightarrow> regex" where
  "literal s = foldr (\<lambda>c r. Then (One (\<lambda>d. d = c)) r) s Empty"

definition literal_i :: "string \<Rightarrow> regex" where
  "literal_i s = foldr (\<lambda>c r. Then (One (\<lambda>d. Canonicalize d = Canonicalize c)) r) s Empty"

definition alternatives :: "regex list \<Rightarrow> regex" where
  "alternatives rs = foldr Or rs Never"

definition any_char :: regex where
  "any_char = One (\<lambda>c. True)"

definition not_backtick :: regex where
  "not_backtick = One (\<lambda>c. c \<noteq> CHR 0x60)"

definition fence :: string where
  "fence = [CHR 0x60, CHR 0x60, CHR 0x60]"

definition codePatterns :: "regex list" where
  "codePatterns =
     [Then (literal fence) (Then (Many any_char) (literal fence)),
      Then (literal [CHR 0x60]) (Then (Then not_backtick (Many not_backtick)) (literal [CHR 0x60])),
      alternatives (map literal_i
        [''analyze'', ''review'', ''check'', ''security'', ''performance'', ''quality'']),
      alternatives (map literal
        [''function'', ''class'', ''def'', ''const'', ''let'', ''var'', ''import'', ''export''])]"

definition isCodeAnalysisRequest :: "string \<Rightarrow> bool" where
  "isCodeAnalysisRequest content = list_ex (\<lambda>pattern. RegExp_test pattern content) codePatterns"

text \<open>
  The copy of \<^verbatim>\<open>isCodeAnalysisRequest\<close> in \<^verbatim>\<open>lib/utils.ts\<close> and in the two agents.
  \<open>toLowerCase\<close> lowers the letters A to Z and nothing else. JavaScript also lowers
  characters outside ASCII, the Kelvin sign to \<^verbatim>\<open>k\<close> among them, so this copy stands for
  the source on ASCII texts only, and it is used on such texts only.
\<close>

fun String_includes :: "string \<Rightarrow> string \<Rightarrow> bool" where
  "String_includes [] t = (t = [])"
| "String_includes (c # cs) t = (prefix t (c # cs) \<or> String_includes cs t)"

definition toLowerCase :: "string \<Rightarrow> string" where
  "toLowerCase s =
     map (\<lambda>c. case map_of (zip ''ABCDEFGHIJKLMNOPQRSTUVWXYZ'' ''abcdefghijklmnopqrstuvwxyz'') c of
                Some l \<Rightarrow> l
              | None \<Rightarrow> c) s"

definition codeAnalysisKeywords :: "string list" where
  "codeAnalysisKeywords =
     [''analyze'', ''review'', ''check'', ''audit'', ''security'', ''performance'',
      ''quality'', ''vulnerability'', ''optimize'', ''improve'', ''bug'', ''issue'']"

definition isCodeAnalysisRequest_utils :: "string \<Rightarrow> bool" where
  "isCodeAnalysisRequest_utils content =
     (let hasCode = (RegExp_test (Then (literal fence) (Then (Many any_char) (literal fence))) content
                     \<or> String_includes content ''function'' \<or> String_includes content ''class'');
          hasAnalysisKeyword = list_ex (\<lambda>keyword. String_includes (toLowerCase content) keyword) codeAnalysisKeywords
      in hasCode \<or> hasAnalysisKeyword)"

text \<open>
  The rule of the specification, in its words: a fenced block, or an inline code span, or
  one of twelve keywords whatever the case, or one of eight structural tokens.
\<close>

definition spec_isAnalysisRequest :: "string \<Rightarrow> bool" where
  "spec_isAnalysisRequest content =
     ((\<exists>u v w. content = u @ fence @ v @ fence @ w)
      \<or> (\<exists>u v w. content = u @ [CHR 0x60] @ v @ [CHR 0x60] @ w \<and> v \<noteq> [] \<and> CHR 0x60 \<notin> set v)
      \<or> list_ex (\<lambda>k. String_includes (toLowerCase content) k)
           [''analyze'', ''review'', ''check'', ''audit'', ''security'', ''performance'',
            ''quality'', ''vulnerability'', ''optimize'', ''improve'', ''bug'', ''issue'']
      \<or> list_ex (\<lambda>t. String_includes content t)
           [''function'', ''class'', ''def'', ''const'', ''let'', ''var'', ''import'', ''export''])"

text \<open>The language of a pattern: the texts it matches from end to end.\<close>

inductive_set star :: "string set \<Rightarrow> string set" for A :: "string set" where
  star_empty: "[] \<in> star A"
| star_more: "u \<in> A \<Longrightarrow> v \<in> star A \<Longrightarrow> u @ v \<in> star A"

fun lang :: "regex \<Rightarrow> string set" where
  "lang Never = {}"
| "lang Empty = {[]}"
| "lang (One p) = {[c] | c. p c}"
| "lang (Then r s) = {u @ v | u v. u \<in> lang r \<and> v \<in> lang s}"
| "lang (Or r s) = lang r \<union> lang s"
| "lang (Many r) = star (lang r)"


section \<open>The session store: lemmas\<close>

lemma Math_round_div:
  assumes "0 < b"
  shows "Math_round (of_int a / of_nat b) = (2 * a + int b) div (2 * int b)"
proof -
  have "(of_int a / of_nat b + 1 / 2 :: rat) = of_int (2 * a + int b) / of_int (2 * int b)"
    using assms by (simp add: field_simps)
  then show ?thesis
    unfolding Math_round_def by (simp only: floor_divide_of_int_eq)
qed

lemma slice_last_short: "length xs \<le> n \<Longrightarrow> slice_last n xs = xs"
  by (simp add: slice_last_def)

lemma slice_last_snoc:
  "slice_last n (slice_last n xs @ [a]) = slice_last n (xs @ [a])"
  by (cases "length xs \<le> n") (auto simp: slice_last_def Suc_diff_le)

lemma length_slice_last: "length (slice_last n xs) = min (length xs) n"
  by (auto simp: slice_last_def)

lemma record_analysis_analyses:
  "analyses (record_analysis now a s) = slice_last 50 (analyses s @ [a])"
  by (simp add: record_analysis_def Let_def slice_last_short)

lemma record_analysis_total:
  "totalAnalyses (record_analysis now a s) = Suc (totalAnalyses s)"
  by (simp add: record_analysis_def Let_def)

lemma record_analysis_lastActivity:
  "lastActivity (record_analysis now a s) = now"
  by (simp add: record_analysis_def Let_def)

lemma record_analysis_average:
  "averageScore (record_analysis now a s) =
     Math_round (fl (totalScore (analyses s @ [a]) / of_nat (Suc (totalAnalyses s))))"
  by (simp add: record_analysis_def Let_def)

lemma record_analysis_fixed:
  "session_id (record_analysis now a s) = session_id s"
  "userId (record_analysis now a s) = userId s"
  "createdAt (record_analysis now a s) = createdAt s"
  by (simp_all add: record_analysis_def Let_def)


lemma update_twice: "AList.update k v (AList.update k w m) = AList.update k v m"
  by (induction m) auto

lemma getSession_ok:
  "getSession now None sid None st =
     (Inr (entered now sid st),
      st\<lparr>sessions := AList.update sid (entered now sid st) (sessions st),
         storage := Some (AList.update sid (entered now sid st) (sessions st))\<rparr>)"
  by (simp add: getSession_def entered_def saveState_def Let_def)

lemma getSession_fails:
  "getSession now (Some m) sid None st =
     (Inl (Error (''Failed to save state: '' @ m)),
      st\<lparr>sessions := AList.update sid (entered now sid st) (sessions st)\<rparr>)"
  by (simp add: getSession_def entered_def saveState_def Let_def)

lemma saveAnalysis_sessions:
  assumes "sid \<noteq> []" and "put_get e = None"
  shows "sessions (snd (saveAnalysis e sid (Some a) st)) =
           AList.update sid
             (record_analysis (now_save e) (validated a) (entered (now_get e) sid st)) (sessions st)"
  using assms
  by (cases "put_save e")
     (simp_all add: saveAnalysis_def saveAnalysis_try_def getSession_ok saveState_def update_twice)

lemma saveAnalysis_result:
  assumes "sid \<noteq> []" and "put_get e = None"
  shows "fst (saveAnalysis e sid (Some a) st) =
           (case put_save e of
              None \<Rightarrow> Inr ()
            | Some m \<Rightarrow> Inl (Error (''Failed to save analysis: '' @ ''Failed to save state: '' @ m)))"
  using assms
  by (cases "put_save e")
     (simp_all add: saveAnalysis_def saveAnalysis_try_def getSession_ok saveState_def)

lemma saveAll_existing:
  assumes "sid \<noteq> []" and "\<forall>c\<in>set cs. put_get (fst c) = None"
    and "map_of (sessions st) sid = Some s"
  shows "map_of (sessions (saveAll sid cs st)) sid = Some (replay cs s)"
  using assms
proof (induction cs arbitrary: st s)
  case Nil
  then show ?case by simp
next
  case (Cons c cs)
  let ?s1 = "record_analysis (now_save (fst c)) (validated (snd c)) (s\<lparr>lastActivity := now_get (fst c)\<rparr>)"
  let ?st1 = "snd (saveAnalysis (fst c) sid (Some (snd c)) st)"
  have e: "entered (now_get (fst c)) sid st = s\<lparr>lastActivity := now_get (fst c)\<rparr>"
    using Cons.prems(3) by (simp add: entered_def)
  have "sessions ?st1 = AList.update sid ?s1 (sessions st)"
    using Cons.prems(1,2) by (simp add: saveAnalysis_sessions e)
  then have "map_of (sessions ?st1) sid = Some ?s1"
    by (simp add: update_conv')
  with Cons.IH [of ?st1 ?s1] Cons.prems(1,2) show ?case by simp
qed

lemma replay_total: "totalAnalyses (replay cs s) = totalAnalyses s + length cs"
  by (induction cs arbitrary: s) (simp_all add: record_analysis_total)

lemma replay_snoc:
  "replay (cs @ [c]) s =
     record_analysis (now_save (fst c)) (validated (snd c)) ((replay cs s)\<lparr>lastActivity := now_get (fst c)\<rparr>)"
  by (induction cs arbitrary: s) simp_all

lemma replay_analyses:
  "length (analyses s) \<le> 50 \<Longrightarrow>
   analyses (replay cs s) = slice_last 50 (analyses s @ map (\<lambda>c. validated (snd c)) cs)"
proof (induction cs rule: rev_induct)
  case Nil
  then show ?case by (simp add: slice_last_short)
next
  case (snoc c cs)
  then show ?case
    using slice_last_snoc [of 50 "analyses s @ map (\<lambda>c. validated (snd c)) cs" "validated (snd c)"]
    by (simp add: replay_snoc record_analysis_analyses)
qed

lemma slice_last_then_snoc: "slice_last n xs @ [a] = slice_last (Suc n) (xs @ [a])"
  by (cases "length xs \<le> n") (auto simp: slice_last_def Suc_diff_le)

lemma replay_average:
  assumes "length (analyses s) \<le> 50" and "cs \<noteq> []"
  shows "averageScore (replay cs s) =
           Math_round (fl (totalScore (slice_last 51 (analyses s @ map (\<lambda>c. validated (snd c)) cs))
                            / of_nat (totalAnalyses s + length cs)))"
proof -
  obtain ds d where cs: "cs = ds @ [d]"
    using assms(2) by (metis rev_exhaust)
  have "analyses (replay ds s) @ [validated (snd d)] =
          slice_last 51 (analyses s @ map (\<lambda>c. validated (snd c)) cs)"
    using slice_last_then_snoc [of 50 "analyses s @ map (\<lambda>c. validated (snd c)) ds" "validated (snd d)"]
    by (simp add: replay_analyses [OF assms(1)] cs)
  then show ?thesis
    by (simp add: cs replay_snoc record_analysis_average replay_total)
qed

lemma round_even_of_nat: "round_even (of_nat m) = int m"
  by (simp add: round_even_def)

lemma fl_of_nat:
  assumes "n < 2 ^ 53"
  shows "fl (of_nat n) = of_nat n"
proof (cases "n = 0")
  case True
  then show ?thesis by (simp add: fl_def)
next
  case False
  define L where "L = floorlog 2 n"
  define d where "d = 53 - L"
  have pos: "0 < n" using False by simp
  have "L \<noteq> 0"
    using pos by (simp add: L_def floorlog_eq_zero_iff)
  moreover have "L \<le> 53"
    unfolding L_def using assms by (intro floorlog_leI) simp_all
  ultimately have d: "int L - 1 = 52 - int d"
    unfolding d_def by arith
  have b: "binade (of_nat n) = 52 - int d"
    using pos d by (simp add: binade_def L_def [symmetric])
  have "round_even (of_nat (n * 2 ^ d)) = int (n * 2 ^ d)"
    by (rule round_even_of_nat)
  then have r: "round_even (of_nat n * 2 ^ d) = int n * 2 ^ d"
    by simp
  have "fl (of_nat n) = scale (- int d) (of_int (round_even (scale (int d) (of_nat n))))"
    using pos by (simp add: fl_def b)
  also have "scale (int d) (of_nat n) = of_nat n * 2 ^ d"
    by (simp add: scale_def)
  also have "scale (- int d) (of_int (round_even (of_nat n * 2 ^ d))) = of_nat n"
    unfolding r by (simp add: scale_def)
  finally show ?thesis .
qed

lemma totalScore_replicate:
  assumes "or_fifty (overallScore a) = of_nat w" and "n * w < 2 ^ 53"
  shows "totalScore (replicate n a) = of_nat (n * w)"
proof -
  have "foldl (\<lambda>sum a. fl (sum + or_fifty (overallScore a))) (of_nat k) (replicate m a)
          = of_nat (k + m * w)" if "k + m * w < 2 ^ 53" for k m
    using that
  proof (induction m arbitrary: k)
    case 0
    then show ?case by simp
  next
    case (Suc m)
    have "k + w < 2 ^ 53" using Suc.prems by simp
    then have "fl (of_nat k + of_nat w) = of_nat (k + w)"
      using fl_of_nat [of "k + w"] by simp
    moreover have "(k + w) + m * w < 2 ^ 53" using Suc.prems by (simp add: algebra_simps)
    ultimately show ?case
      using Suc.IH [of "k + w"] by (simp add: assms(1) algebra_simps)
  qed
  from this [of 0 n] assms(2) show ?thesis
    by (simp add: totalScore_def)
qed

lemma slice_last_replicate: "slice_last m (replicate n a) = replicate (min n m) a"
  by (auto simp: slice_last_def min_def)

lemma entered_again: "(entered now sid st)\<lparr>lastActivity := now\<rparr> = entered now sid st"
  by (simp add: entered_def split: option.splits)

lemma saveAll_from:
  assumes "sid \<noteq> []" and "\<forall>c\<in>set cs. put_get (fst c) = None" and "cs \<noteq> []"
  shows "map_of (sessions (saveAll sid cs st)) sid =
           Some (replay cs (entered (now_get (fst (hd cs))) sid st))"
proof -
  obtain c ds where cs: "cs = c # ds"
    using assms(3) by (cases cs) auto
  let ?s1 = "record_analysis (now_save (fst c)) (validated (snd c)) (entered (now_get (fst c)) sid st)"
  let ?st1 = "snd (saveAnalysis (fst c) sid (Some (snd c)) st)"
  have "map_of (sessions ?st1) sid = Some ?s1"
    using assms(1,2) by (simp add: cs saveAnalysis_sessions update_conv')
  then have "map_of (sessions (saveAll sid ds ?st1)) sid = Some (replay ds ?s1)"
    using assms(1,2) by (intro saveAll_existing) (simp_all add: cs)
  then show ?thesis by (simp add: cs entered_again)
qed

lemma entered_new:
  "map_of (sessions st) sid = None \<Longrightarrow>
   analyses (entered now sid st) = [] \<and> totalAnalyses (entered now sid st) = 0"
  by (simp add: entered_def)

lemma Math_round_of_int: "Math_round (of_int n) = n"
  using Math_round_div [of 1 n] by simp

lemma Math_round_numeral: "Math_round (numeral k) = numeral k"
  using Math_round_of_int [of "numeral k"] by simp

lemma last_slice_last: "0 < n \<Longrightarrow> last (slice_last n (xs @ [a])) = a"
  by (simp add: slice_last_def)

lemma slice_last_snoc_nonempty: "0 < n \<Longrightarrow> slice_last n (xs @ [a]) \<noteq> []"
  by (simp add: slice_last_def)

lemma replay_fresh_average:
  assumes "sid \<noteq> []" and "map_of (sessions st) sid = None"
    and "\<forall>c\<in>set cs. put_get (fst c) = None" and "cs \<noteq> []"
  shows "map_of (sessions (saveAll sid cs st)) sid = Some (replay cs (entered (now_get (fst (hd cs))) sid st))"
    and "averageScore (replay cs (entered (now_get (fst (hd cs))) sid st)) =
           Math_round (fl (totalScore (slice_last 51 (map (\<lambda>c. validated (snd c)) cs))
                            / of_nat (length cs)))"
    and "analyses (replay cs (entered (now_get (fst (hd cs))) sid st)) =
           slice_last 50 (map (\<lambda>c. validated (snd c)) cs)"
proof -
  let ?s0 = "entered (now_get (fst (hd cs))) sid st"
  have new: "analyses ?s0 = []" "totalAnalyses ?s0 = 0"
    using entered_new [OF assms(2)] by simp_all
  show "map_of (sessions (saveAll sid cs st)) sid = Some (replay cs ?s0)"
    by (rule saveAll_from [OF assms(1,3,4)])
  show "averageScore (replay cs ?s0) =
           Math_round (fl (totalScore (slice_last 51 (map (\<lambda>c. validated (snd c)) cs))
                            / of_nat (length cs)))"
    using replay_average [of ?s0 cs] assms(4) by (simp add: new)
  show "analyses (replay cs ?s0) = slice_last 50 (map (\<lambda>c. validated (snd c)) cs)"
    using replay_analyses [of ?s0 cs] by (simp add: new)
qed

lemma saveAll_replicate:
  assumes "0 < n"
  shows "map_of (sessions (saveAll ''s1'' (replicate n (env_at t None None, result_scored v)) empty_store)) ''s1''
           = Some (replay (replicate n (env_at t None None, result_scored v)) (entered t ''s1'' empty_store))"
    and "averageScore (replay (replicate n (env_at t None None, result_scored v)) (entered t ''s1'' empty_store))
           = Math_round (fl (totalScore (replicate (min n 51) (validated (result_scored v))) / of_nat n))"
    and "analyses (replay (replicate n (env_at t None None, result_scored v)) (entered t ''s1'' empty_store))
           = replicate (min n 50) (validated (result_scored v))"
proof -
  let ?cs = "replicate n (env_at t None None, result_scored v)"
  have m: "map_of (sessions empty_store) ''s1'' = None"
    by (simp add: empty_store_def)
  have p: "\<forall>c\<in>set ?cs. put_get (fst c) = None"
    by (simp add: env_at_def)
  have ne: "?cs \<noteq> []" "''s1'' \<noteq> []"
    using assms by simp_all
  have hd: "now_get (fst (hd ?cs)) = t"
    using assms by (simp add: env_at_def)
  note f = replay_fresh_average [OF ne(2) m p ne(1), unfolded hd]
  have vs: "map (\<lambda>c. validated (snd c)) ?cs = replicate n (validated (result_scored v))"
    by simp
  show "map_of (sessions (saveAll ''s1'' ?cs empty_store)) ''s1'' = Some (replay ?cs (entered t ''s1'' empty_store))"
    by (rule f(1))
  show "averageScore (replay ?cs (entered t ''s1'' empty_store))
           = Math_round (fl (totalScore (replicate (min n 51) (validated (result_scored v))) / of_nat n))"
    using f(2) by (simp only: vs slice_last_replicate length_replicate)
  show "analyses (replay ?cs (entered t ''s1'' empty_store)) = replicate (min n 50) (validated (result_scored v))"
    using f(3) by (simp only: vs slice_last_replicate)
qed

lemma saveAll_replicate_average:
  assumes "0 < n" and "or_fifty (validScore v) = of_nat w" and "min n 51 * w < 2 ^ 53"
  shows "map_option averageScore
           (map_of (sessions (saveAll ''s1'' (replicate n (env_at t None None, result_scored v)) empty_store)) ''s1'')
         = Some (Math_round (fl (of_nat (min n 51 * w) / of_nat n)))"
proof -
  have "or_fifty (overallScore (validated (result_scored v))) = of_nat w"
    using assms(2) by (simp add: validated_def result_scored_def)
  then have "totalScore (replicate (min n 51) (validated (result_scored v))) = of_nat (min n 51 * w)"
    using assms(3) by (rule totalScore_replicate)
  then show ?thesis
    using saveAll_replicate [OF assms(1), of t v] by simp
qed

lemma cleanup_fold:
  "fold (cleanup_step now maxAgeMs) es (m, c) =
     (filter (\<lambda>p. fst p \<notin> fst ` {q \<in> set es. expired now maxAgeMs q}) m,
      c + length (filter (expired now maxAgeMs) es))"
proof (induction es arbitrary: m c)
  case Nil
  then show ?case by simp
next
  case (Cons e es)
  show ?case
  proof (cases "expired now maxAgeMs e")
    case True
    then have "cleanup_step now maxAgeMs e (m, c) = (filter (\<lambda>p. fst p \<noteq> fst e) m, c + 1)"
      by (auto simp add: cleanup_step_def expired_def AList.delete_eq intro!: filter_cong)
    moreover have "{q \<in> set (e # es). expired now maxAgeMs q} = insert e {q \<in> set es. expired now maxAgeMs q}"
      using True by auto
    ultimately show ?thesis
      using True by (simp add: Cons.IH conj_commute)
  next
    case False
    then have "cleanup_step now maxAgeMs e (m, c) = (m, c)"
      by (simp add: cleanup_step_def expired_def)
    moreover have "{q \<in> set (e # es). expired now maxAgeMs q} = {q \<in> set es. expired now maxAgeMs q}"
      using False by auto
    ultimately show ?thesis
      using False by (simp add: Cons.IH)
  qed
qed

lemma cleanup_fold_distinct:
  assumes "distinct (map fst m)"
  shows "fold (cleanup_step now maxAgeMs) m (m, 0) =
     (filter (\<lambda>p. \<not> expired now maxAgeMs p) m, length (filter (expired now maxAgeMs) m))"
proof -
  have "fst p \<in> fst ` {q \<in> set m. expired now maxAgeMs q} \<longleftrightarrow> expired now maxAgeMs p"
    if "p \<in> set m" for p
  proof
    assume "fst p \<in> fst ` {q \<in> set m. expired now maxAgeMs q}"
    then obtain q where q: "q \<in> set m" "expired now maxAgeMs q" "fst q = fst p"
      by auto
    then have "q = p"
      using assms that by (metis eq_key_imp_eq_value prod.collapse)
    with q show "expired now maxAgeMs p" by simp
  next
    assume "expired now maxAgeMs p"
    with that show "fst p \<in> fst ` {q \<in> set m. expired now maxAgeMs q}" by auto
  qed
  then have "filter (\<lambda>p. fst p \<notin> fst ` {q \<in> set m. expired now maxAgeMs q}) m =
             filter (\<lambda>p. \<not> expired now maxAgeMs p) m"
    by (intro filter_cong) auto
  then show ?thesis by (simp add: cleanup_fold)
qed


section \<open>The analysis workflow: lemmas\<close>

lemma settled_entry_in_range:
  "index < length rs \<Longrightarrow> settled_entry rs index msg = Inr (entry_of (rs ! index) msg)"
  by (simp add: settled_entry_def entry_of_def split: settled.splits)

lemma performParallelAnalysis_eq:
  "performParallelAnalysis A input =
     Inr \<lparr>security =
            (if Security \<in> set (analysisTypes input)
             then Some (entry_of (analyzeSecurity A (code input)) ''Security analysis failed'')
             else None),
          performance =
            (if Performance \<in> set (analysisTypes input)
             then Some (entry_of (analyzePerformance A (code input)) ''Performance analysis failed'')
             else None),
          quality =
            (if Quality \<in> set (analysisTypes input)
             then Some (entry_of (analyzeQuality A (code input)) ''Quality analysis failed'')
             else None)\<rparr>"
  by (cases "Security \<in> set (analysisTypes input)"; cases "Performance \<in> set (analysisTypes input)";
      cases "Quality \<in> set (analysisTypes input)")
     (simp_all add: performParallelAnalysis_def settled_entry_in_range nth_append)


section \<open>The write-through: lemmas\<close>

lemma saveAnalysis_get_rejected:
  assumes "sid \<noteq> []" and "put_get e = Some m"
  shows "saveAnalysis e sid (Some a) st =
           (Inl (Error (''Failed to save analysis: '' @ ''Failed to save state: '' @ m)),
            st\<lparr>sessions := AList.update sid (entered (now_get e) sid st) (sessions st)\<rparr>)"
  using assms
  by (simp add: saveAnalysis_def saveAnalysis_try_def getSession_fails)

lemma saveAnalysis_rejected:
  assumes "sid \<noteq> []" and "put_get e \<noteq> None \<or> put_save e \<noteq> None"
  shows "fst (saveAnalysis e sid (Some a) st) =
           Inl (Error (''Failed to save analysis: '' @ ''Failed to save state: '' @
                  (case put_get e of Some m \<Rightarrow> m | None \<Rightarrow> (case put_save e of Some m \<Rightarrow> m | None \<Rightarrow> []))))"
proof (cases "put_get e")
  case None
  with assms show ?thesis
    by (auto simp add: saveAnalysis_result)
next
  case (Some m)
  with assms show ?thesis
    by (simp add: saveAnalysis_get_rejected)
qed

lemma saveAnalysisResult_returns:
  "fst (saveAnalysisResult e r st) = Inr ()"
  by (simp add: saveAnalysisResult_def split: prod.splits sum.splits error.splits)

lemma saveAnalysisResult_console:
  assumes "put_get e \<noteq> None \<or> put_save e \<noteq> None"
  shows "fst (snd (saveAnalysisResult e r st)) = [''Error saving analysis result: Failed to save analysis: '']"
proof -
  have "\<exists>m. fst (saveAnalysis e ''default-session'' (Some (posted r)) st) = Inl (Error m)"
    using saveAnalysis_rejected [OF _ assms, of "''default-session''"] by simp
  then obtain m st1 where "saveAnalysis e ''default-session'' (Some (posted r)) st = (Inl (Error m), st1)"
    by (metis prod.collapse)
  then show ?thesis
    by (simp add: saveAnalysisResult_def saveAnalysisResult_try_def fetch_POST_analysis_def
        Response_ok_def)
qed

lemma performCodeAnalysis_stream:
  "fst (performCodeAnalysis e report st) = map (\<lambda>chunk. chunk @ [CHR 0x0A]) (split_lines report)"
proof -
  obtain console st1 where "saveAnalysisResult e analysisResult st = (Inr (), console, st1)"
    using saveAnalysisResult_returns [of e analysisResult st]
    by (metis prod.collapse)
  then show ?thesis
    by (simp add: performCodeAnalysis_def)
qed


section \<open>The content classifier: the patterns and their languages\<close>

lemma star_cons:
  "c # w \<in> star A \<longleftrightarrow> (\<exists>u v. w = u @ v \<and> c # u \<in> A \<and> v \<in> star A)"
proof
  assume "c # w \<in> star A"
  then show "\<exists>u v. w = u @ v \<and> c # u \<in> A \<and> v \<in> star A"
  proof (induction "c # w" arbitrary: w rule: star.induct)
    case (star_more u v)
    show ?case
    proof (cases u)
      case Nil
      with star_more show ?thesis by simp
    next
      case (Cons d u')
      with star_more.hyps show ?thesis by auto
    qed
  qed
next
  assume "\<exists>u v. w = u @ v \<and> c # u \<in> A \<and> v \<in> star A"
  then obtain u v where "w = u @ v" "c # u \<in> A" "v \<in> star A" by blast
  then show "c # w \<in> star A"
    using star_more [of "c # u" A v] by simp
qed

lemma nullable_iff: "nullable r \<longleftrightarrow> [] \<in> lang r"
  by (induction r) (auto intro: star_empty)

lemma cons_in_seq:
  "(\<exists>u v. c # w = u @ v \<and> u \<in> A \<and> v \<in> B) \<longleftrightarrow>
     ([] \<in> A \<and> c # w \<in> B) \<or> (\<exists>u v. w = u @ v \<and> c # u \<in> A \<and> v \<in> B)"
proof
  assume "\<exists>u v. c # w = u @ v \<and> u \<in> A \<and> v \<in> B"
  then obtain u v where uv: "c # w = u @ v" "u \<in> A" "v \<in> B" by blast
  show "([] \<in> A \<and> c # w \<in> B) \<or> (\<exists>u v. w = u @ v \<and> c # u \<in> A \<and> v \<in> B)"
  proof (cases u)
    case Nil
    with uv show ?thesis by simp
  next
    case (Cons d u')
    with uv have "w = u' @ v" "c # u' \<in> A" by simp_all
    with uv(3) show ?thesis by blast
  qed
next
  assume "([] \<in> A \<and> c # w \<in> B) \<or> (\<exists>u v. w = u @ v \<and> c # u \<in> A \<and> v \<in> B)"
  then show "\<exists>u v. c # w = u @ v \<and> u \<in> A \<and> v \<in> B"
  proof
    assume "[] \<in> A \<and> c # w \<in> B"
    then have "c # w = [] @ (c # w) \<and> [] \<in> A \<and> c # w \<in> B" by simp
    then show ?thesis by blast
  next
    assume "\<exists>u v. w = u @ v \<and> c # u \<in> A \<and> v \<in> B"
    then obtain u v where "w = u @ v" "c # u \<in> A" "v \<in> B" by blast
    then have "c # w = (c # u) @ v \<and> c # u \<in> A \<and> v \<in> B" by simp
    then show ?thesis by blast
  qed
qed

lemma lang_Then: "w \<in> lang (Then r s) \<longleftrightarrow> (\<exists>u v. w = u @ v \<and> u \<in> lang r \<and> v \<in> lang s)"
  by auto

lemma lang_after: "w \<in> lang (after c r) \<longleftrightarrow> c # w \<in> lang r"
proof (induction r arbitrary: w)
  case (Then r s)
  have "c # w \<in> lang (Then r s) \<longleftrightarrow>
          ([] \<in> lang r \<and> c # w \<in> lang s)
          \<or> (\<exists>u v. w = u @ v \<and> c # u \<in> lang r \<and> v \<in> lang s)"
    unfolding lang_Then by (rule cons_in_seq)
  also have "\<dots> \<longleftrightarrow> (nullable r \<and> w \<in> lang (after c s))
          \<or> (\<exists>u v. w = u @ v \<and> u \<in> lang (after c r) \<and> v \<in> lang s)"
    by (simp add: Then nullable_iff)
  also have "\<dots> \<longleftrightarrow> w \<in> lang (after c (Then r s))"
    by (cases "nullable r") (auto simp del: lang.simps(4) simp add: lang_Then)
  finally show ?case by simp
next
  case (Many r)
  have "c # w \<in> lang (Many r) \<longleftrightarrow> (\<exists>u v. w = u @ v \<and> c # u \<in> lang r \<and> v \<in> star (lang r))"
    by (simp add: star_cons)
  also have "\<dots> \<longleftrightarrow> (\<exists>u v. w = u @ v \<and> u \<in> lang (after c r) \<and> v \<in> lang (Many r))"
    by (simp add: Many)
  also have "\<dots> \<longleftrightarrow> w \<in> lang (after c (Many r))"
    by (simp del: lang.simps(4) add: lang_Then)
  finally show ?case by simp
qed auto

lemma match_here_iff: "match_here r s \<longleftrightarrow> (\<exists>v w. s = v @ w \<and> v \<in> lang r)"
proof (induction s arbitrary: r)
  case Nil
  then show ?case by (simp add: nullable_iff)
next
  case (Cons c cs)
  show ?case
  proof
    assume "match_here r (c # cs)"
    then consider "nullable r" | "match_here (after c r) cs" by auto
    then show "\<exists>v w. c # cs = v @ w \<and> v \<in> lang r"
    proof cases
      case 1
      then show ?thesis by (auto simp: nullable_iff)
    next
      case 2
      then obtain v w where "cs = v @ w" "c # v \<in> lang r"
        using Cons.IH by (auto simp: lang_after)
      then show ?thesis by (metis append_Cons)
    qed
  next
    assume "\<exists>v w. c # cs = v @ w \<and> v \<in> lang r"
    then obtain v w where vw: "c # cs = v @ w" "v \<in> lang r" by blast
    show "match_here r (c # cs)"
    proof (cases v)
      case Nil
      with vw(2) have "nullable r" by (simp add: nullable_iff)
      then show ?thesis by simp
    next
      case (Cons d v')
      with vw have "cs = v' @ w" "v' \<in> lang (after c r)" by (auto simp: lang_after)
      then have "match_here (after c r) cs" using Cons.IH by blast
      then show ?thesis by simp
    qed
  qed
qed

lemma RegExp_test_iff: "RegExp_test r s \<longleftrightarrow> (\<exists>u v w. s = u @ v @ w \<and> v \<in> lang r)"
proof (induction s)
  case Nil
  then show ?case by (simp add: nullable_iff)
next
  case (Cons c cs)
  show ?case
  proof
    assume "RegExp_test r (c # cs)"
    then consider "match_here r (c # cs)" | "RegExp_test r cs" by auto
    then show "\<exists>u v w. c # cs = u @ v @ w \<and> v \<in> lang r"
    proof cases
      case 1
      then show ?thesis
        unfolding match_here_iff by (metis append_Nil)
    next
      case 2
      then obtain u v w where "cs = u @ v @ w" "v \<in> lang r" using Cons.IH by blast
      then show ?thesis by (metis append_Cons)
    qed
  next
    assume "\<exists>u v w. c # cs = u @ v @ w \<and> v \<in> lang r"
    then obtain u v w where uvw: "c # cs = u @ v @ w" "v \<in> lang r" by blast
    show "RegExp_test r (c # cs)"
    proof (cases u)
      case Nil
      with uvw have "match_here r (c # cs)"
        unfolding match_here_iff by auto
      then show ?thesis by simp
    next
      case (Cons d u')
      with uvw have "cs = u' @ v @ w" by simp
      with uvw(2) have "RegExp_test r cs" using Cons.IH by blast
      then show ?thesis by simp
    qed
  qed
qed

lemma lang_One_Then:
  "v \<in> lang (Then (One p) r) \<longleftrightarrow> (\<exists>c v'. v = c # v' \<and> p c \<and> v' \<in> lang r)"
proof
  assume "v \<in> lang (Then (One p) r)"
  then obtain u w where "v = u @ w" "u \<in> lang (One p)" "w \<in> lang r"
    unfolding lang_Then by blast
  then show "\<exists>c v'. v = c # v' \<and> p c \<and> v' \<in> lang r" by auto
next
  assume "\<exists>c v'. v = c # v' \<and> p c \<and> v' \<in> lang r"
  then obtain c v' where cv: "v = c # v'" "p c" "v' \<in> lang r" by blast
  then have "v = [c] @ v' \<and> [c] \<in> lang (One p) \<and> v' \<in> lang r" by simp
  then show "v \<in> lang (Then (One p) r)"
    unfolding lang_Then by blast
qed

lemma literal_Cons: "literal (a # s) = Then (One (\<lambda>d. d = a)) (literal s)"
  by (simp add: literal_def)

lemma literal_i_Cons:
  "literal_i (a # s) = Then (One (\<lambda>d. Canonicalize d = Canonicalize a)) (literal_i s)"
  by (simp add: literal_i_def)

lemma in_lang_literal: "v \<in> lang (literal s) \<longleftrightarrow> v = s"
proof (induction s arbitrary: v)
  case Nil
  then show ?case by (simp add: literal_def)
next
  case (Cons a s)
  have "v \<in> lang (literal (a # s)) \<longleftrightarrow> (\<exists>c v'. v = c # v' \<and> c = a \<and> v' \<in> lang (literal s))"
    unfolding literal_Cons by (rule lang_One_Then)
  also have "\<dots> \<longleftrightarrow> v = a # s"
    by (simp add: Cons)
  finally show ?case .
qed

lemma in_lang_literal_i:
  "v \<in> lang (literal_i s) \<longleftrightarrow> map Canonicalize v = map Canonicalize s"
proof (induction s arbitrary: v)
  case Nil
  then show ?case by (simp add: literal_i_def)
next
  case (Cons a s)
  have "v \<in> lang (literal_i (a # s)) \<longleftrightarrow>
          (\<exists>c v'. v = c # v' \<and> Canonicalize c = Canonicalize a \<and> v' \<in> lang (literal_i s))"
    unfolding literal_i_Cons by (rule lang_One_Then)
  also have "\<dots> \<longleftrightarrow> map Canonicalize v = map Canonicalize (a # s)"
    by (cases v) (simp_all add: Cons)
  finally show ?case .
qed

lemma in_lang_alternatives: "v \<in> lang (alternatives rs) \<longleftrightarrow> (\<exists>r\<in>set rs. v \<in> lang r)"
  by (induction rs) (simp_all add: alternatives_def)

lemma in_star_any: "w \<in> lang (Many any_char)"
proof (induction w)
  case Nil
  show ?case by (simp add: star_empty)
next
  case (Cons c w)
  have "[c] \<in> lang any_char" by (simp add: any_char_def)
  moreover have "w \<in> star (lang any_char)" using Cons by simp
  ultimately have "[c] @ w \<in> star (lang any_char)" by (rule star_more)
  then show ?case by simp
qed

lemma lang_not_backtick: "u \<in> lang not_backtick \<longleftrightarrow> (\<exists>c. u = [c] \<and> c \<noteq> CHR 0x60)"
  by (simp add: not_backtick_def)

lemma star_not_backtick_D:
  assumes "w \<in> star (lang not_backtick)"
  shows "CHR 0x60 \<notin> set w"
  using assms
proof (induction rule: star.induct)
  case star_empty
  show ?case by simp
next
  case (star_more u v)
  from star_more.hyps(1) obtain c where "u = [c]" "c \<noteq> CHR 0x60"
    unfolding lang_not_backtick by blast
  with star_more.IH show ?case by simp
qed

lemma star_not_backtick_I:
  assumes "CHR 0x60 \<notin> set w"
  shows "w \<in> star (lang not_backtick)"
  using assms
proof (induction w)
  case Nil
  show ?case by (rule star_empty)
next
  case (Cons c w)
  then have "[c] \<in> lang not_backtick" "w \<in> star (lang not_backtick)"
    by (auto simp add: lang_not_backtick)
  then have "[c] @ w \<in> star (lang not_backtick)" by (rule star_more)
  then show ?case by simp
qed

lemma in_star_not_backtick: "w \<in> lang (Many not_backtick) \<longleftrightarrow> CHR 0x60 \<notin> set w"
  using star_not_backtick_D [of w] star_not_backtick_I [of w] by auto

lemma lang_class_Then:
  assumes "r = One p"
  shows "v \<in> lang (Then r s) \<longleftrightarrow> (\<exists>c v'. v = c # v' \<and> p c \<and> v' \<in> lang s)"
  unfolding assms by (rule lang_One_Then)

lemma in_lang_span:
  "v \<in> lang (Then not_backtick (Many not_backtick)) \<longleftrightarrow> v \<noteq> [] \<and> CHR 0x60 \<notin> set v"
proof -
  have "v \<in> lang (Then not_backtick (Many not_backtick)) \<longleftrightarrow>
          (\<exists>c v'. v = c # v' \<and> c \<noteq> CHR 0x60 \<and> v' \<in> lang (Many not_backtick))"
    by (rule lang_class_Then [OF not_backtick_def])
  also have "\<dots> \<longleftrightarrow> v \<noteq> [] \<and> CHR 0x60 \<notin> set v"
    unfolding in_star_not_backtick by (cases v) auto
  finally show ?thesis .
qed

lemma in_star_any_char: "w \<in> star (lang any_char)"
  using in_star_any [of w] by simp

lemma test_fenced:
  "RegExp_test (Then (literal fence) (Then (Many any_char) (literal fence))) s \<longleftrightarrow>
     (\<exists>u v w. s = u @ fence @ v @ fence @ w)"
proof -
  have inner: "y \<in> lang (Then (Many any_char) (literal fence)) \<longleftrightarrow> (\<exists>v. y = v @ fence)" for y
    unfolding lang_Then [of y] in_lang_literal by (simp add: in_star_any_char)
  have L: "x \<in> lang (Then (literal fence) (Then (Many any_char) (literal fence))) \<longleftrightarrow>
          (\<exists>v. x = fence @ v @ fence)" for x
    unfolding lang_Then [of x] in_lang_literal inner by blast
  show ?thesis
  proof
    assume "RegExp_test (Then (literal fence) (Then (Many any_char) (literal fence))) s"
    then obtain u x w v where "s = u @ x @ w" "x = fence @ v @ fence"
      unfolding RegExp_test_iff L by blast
    then have "s = u @ fence @ v @ fence @ w" by simp
    then show "\<exists>u v w. s = u @ fence @ v @ fence @ w" by blast
  next
    assume "\<exists>u v w. s = u @ fence @ v @ fence @ w"
    then obtain u v w where "s = u @ fence @ v @ fence @ w" by blast
    then have "s = u @ (fence @ v @ fence) @ w \<and> (\<exists>v'. fence @ v @ fence = fence @ v' @ fence)"
      by simp
    then show "RegExp_test (Then (literal fence) (Then (Many any_char) (literal fence))) s"
      unfolding RegExp_test_iff L by blast
  qed
qed

lemma test_inline:
  "RegExp_test (Then (literal [CHR 0x60]) (Then (Then not_backtick (Many not_backtick)) (literal [CHR 0x60]))) s \<longleftrightarrow>
     (\<exists>u v w. s = u @ [CHR 0x60] @ v @ [CHR 0x60] @ w \<and> v \<noteq> [] \<and> CHR 0x60 \<notin> set v)"
  (is "RegExp_test ?R s \<longleftrightarrow> ?rhs")
proof -
  have inner: "y \<in> lang (Then (Then not_backtick (Many not_backtick)) (literal [CHR 0x60])) \<longleftrightarrow>
          (\<exists>v. y = v @ [CHR 0x60] \<and> v \<noteq> [] \<and> CHR 0x60 \<notin> set v)" for y
    unfolding lang_Then [of y] in_lang_literal in_lang_span by blast
  have L: "x \<in> lang ?R \<longleftrightarrow> (\<exists>v. x = [CHR 0x60] @ v @ [CHR 0x60] \<and> v \<noteq> [] \<and> CHR 0x60 \<notin> set v)" for x
    unfolding lang_Then [of x] in_lang_literal inner by blast
  show ?thesis
  proof
    assume "RegExp_test ?R s"
    then obtain u x w v where "s = u @ x @ w" "x = [CHR 0x60] @ v @ [CHR 0x60]" "v \<noteq> []" "CHR 0x60 \<notin> set v"
      unfolding RegExp_test_iff L by blast
    then have "s = u @ [CHR 0x60] @ v @ [CHR 0x60] @ w \<and> v \<noteq> [] \<and> CHR 0x60 \<notin> set v" by simp
    then show ?rhs by blast
  next
    assume ?rhs
    then obtain u v w where "s = u @ [CHR 0x60] @ v @ [CHR 0x60] @ w" "v \<noteq> []" "CHR 0x60 \<notin> set v" by blast
    then have "s = u @ ([CHR 0x60] @ v @ [CHR 0x60]) @ w \<and>
        (\<exists>v'. [CHR 0x60] @ v @ [CHR 0x60] = [CHR 0x60] @ v' @ [CHR 0x60] \<and> v' \<noteq> [] \<and> CHR 0x60 \<notin> set v')"
      by simp
    then show "RegExp_test ?R s"
      unfolding RegExp_test_iff L by blast
  qed
qed

lemma test_keywords_i:
  "RegExp_test (alternatives (map literal_i ks)) s \<longleftrightarrow>
     (\<exists>k\<in>set ks. \<exists>u v w. s = u @ v @ w \<and> map Canonicalize v = map Canonicalize k)"
proof -
  have L: "x \<in> lang (alternatives (map literal_i ks)) \<longleftrightarrow>
             (\<exists>k\<in>set ks. map Canonicalize x = map Canonicalize k)" for x
    unfolding in_lang_alternatives by (simp add: in_lang_literal_i)
  show ?thesis
    unfolding RegExp_test_iff L by blast
qed

lemma test_tokens:
  "RegExp_test (alternatives (map literal ts)) s \<longleftrightarrow> (\<exists>t\<in>set ts. \<exists>u w. s = u @ t @ w)"
proof -
  have L: "x \<in> lang (alternatives (map literal ts)) \<longleftrightarrow> x \<in> set ts" for x
    unfolding in_lang_alternatives by (simp add: in_lang_literal)
  show ?thesis
    unfolding RegExp_test_iff L by blast
qed


section \<open>The session store: history and counter\<close>

text \<open>
  C5. A session that does not exist yet receives a run of \<^verbatim>\<open>saveAnalysis\<close> calls, the
  session id not empty and the write of \<^verbatim>\<open>getSession\<close> accepted in each. After \<open>n\<close>
  calls (\<open>n \<ge> 1\<close>) the counter \<^verbatim>\<open>totalAnalyses\<close> is \<open>n\<close> and the history holds the
  last \<open>min n 50\<close> results, checked, in the order they were saved: the oldest ones are the
  ones dropped. With 51 calls the history has 50 entries and the counter is 51.
\<close>

theorem C5_counter_and_window:
  assumes "sessionId \<noteq> []" and "map_of (sessions st) sessionId = None"
    and "\<forall>c\<in>set calls. put_get (fst c) = None" and "calls \<noteq> []"
  shows "\<exists>s. map_of (sessions (saveAll sessionId calls st)) sessionId = Some s
           \<and> totalAnalyses s = length calls
           \<and> analyses s = drop (length calls - 50) (map (\<lambda>c. validated (snd c)) calls)
           \<and> length (analyses s) = min (length calls) 50"
proof -
  let ?s0 = "entered (now_get (fst (hd calls))) sessionId st"
  have new: "analyses ?s0 = []" "totalAnalyses ?s0 = 0"
    using entered_new [OF assms(2)] by simp_all
  have "map_of (sessions (saveAll sessionId calls st)) sessionId = Some (replay calls ?s0)"
    by (rule saveAll_from [OF assms(1,3,4)])
  moreover have "totalAnalyses (replay calls ?s0) = length calls"
    by (simp add: replay_total new)
  moreover have "analyses (replay calls ?s0) = drop (length calls - 50) (map (\<lambda>c. validated (snd c)) calls)"
    using replay_analyses [of ?s0 calls] by (simp add: new slice_last_def)
  ultimately show ?thesis by auto
qed

theorem C5_counter_and_window_witness:
  "''s1'' \<noteq> [] \<and> map_of (sessions empty_store) ''s1'' = None
   \<and> list_all (\<lambda>c. put_get (fst c) = None) (replicate 51 (env_at 7 None None, result_scored (Number 80)))
   \<and> replicate 51 (env_at 7 None None, result_scored (Number 80)) \<noteq> []
   \<and> (\<exists>s. map_of (sessions (saveAll ''s1'' (replicate 51 (env_at 7 None None, result_scored (Number 80))) empty_store)) ''s1'' = Some s
           \<and> totalAnalyses s = 51 \<and> length (analyses s) = 50)"
  using C5_counter_and_window [of "''s1''" empty_store "replicate 51 (env_at 7 None None, result_scored (Number 80))"]
  by (auto simp add: empty_store_def env_at_def list_all_iff)

section \<open>The session store: the score check\<close>

text \<open>
  What a \<^verbatim>\<open>saveAnalysis\<close> call that reaches the store appends, for every content of the
  score slot: the result it was given with the checked score, which is 50 for a missing
  score, a value that is no number, an infinity and a finite number below 0 or above 100,
  the number itself between 0 and 100, and \<^verbatim>\<open>NaN\<close> for \<^verbatim>\<open>NaN\<close>. The outcome of the
  call depends on the last write alone.
\<close>

lemma checked_score:
  "overallScore (validated a) =
     (case overallScore a of
        Number r \<Rightarrow> if 0 \<le> r \<and> r \<le> 100 then Score r else Score 50
      | NotANumber \<Rightarrow> NaN
      | _ \<Rightarrow> Score 50)"
  by (auto simp: validated_def validScore_def split: score_slot.splits)

lemma saveAnalysis_appends_checked:
  assumes "sessionId \<noteq> []" and "put_get e = None"
  shows "fst (saveAnalysis e sessionId (Some a) st) =
           (case put_save e of
              None \<Rightarrow> Inr ()
            | Some m \<Rightarrow> Inl (Error (''Failed to save analysis: '' @ ''Failed to save state: '' @ m)))
         \<and> (\<exists>s. map_of (sessions (snd (saveAnalysis e sessionId (Some a) st))) sessionId = Some s
               \<and> analyses s \<noteq> []
               \<and> last (analyses s) = validated a)"
proof -
  let ?s = "record_analysis (now_save e) (validated a) (entered (now_get e) sessionId st)"
  have "map_of (sessions (snd (saveAnalysis e sessionId (Some a) st))) sessionId = Some ?s"
    using assms by (simp add: saveAnalysis_sessions update_conv')
  moreover have "analyses ?s \<noteq> []" "last (analyses ?s) = validated a"
    by (simp_all add: record_analysis_analyses last_slice_last slice_last_snoc_nonempty)
  ultimately show ?thesis
    using saveAnalysis_result [OF assms, of a st] by simp
qed

text \<open>
  C6. A result whose score is \<^verbatim>\<open>NaN\<close> is not refused, and it is stored with the score
  \<^verbatim>\<open>NaN\<close>, not 50: the check of line 354 lets it through. The average of the same call
  counts it as 50. A score of 150 is stored as 50.
\<close>

theorem C6_nan_is_stored:
  "fst (saveAnalysis (env_at 7 None None) ''s1'' (Some (result_scored NotANumber)) empty_store) = Inr ()
   \<and> map_option (\<lambda>s. map overallScore (analyses s))
        (map_of (sessions (snd (saveAnalysis (env_at 7 None None) ''s1''
           (Some (result_scored NotANumber)) empty_store))) ''s1'') = Some [NaN]
   \<and> map_option averageScore
        (map_of (sessions (snd (saveAnalysis (env_at 7 None None) ''s1''
           (Some (result_scored NotANumber)) empty_store))) ''s1'') = Some 50
   \<and> map_option (\<lambda>s. map overallScore (analyses s))
        (map_of (sessions (snd (saveAnalysis (env_at 7 None None) ''s1''
           (Some (result_scored (Number 150))) empty_store))) ''s1'') = Some [Score 50]"
proof -
  have e: "''s1'' \<noteq> []" "put_get (env_at 7 None None) = None"
    by (simp_all add: env_at_def)
  have s: "sessions (snd (saveAnalysis (env_at 7 None None) ''s1'' (Some (result_scored v)) empty_store)) =
      [(''s1'', record_analysis 7 (validated (result_scored v)) (entered 7 ''s1'' empty_store))]" for v
    using saveAnalysis_sessions [OF e, of "result_scored v" empty_store]
    by (simp add: env_at_def empty_store_def)
  have new: "analyses (entered 7 ''s1'' empty_store) = []" "totalAnalyses (entered 7 ''s1'' empty_store) = 0"
    by (simp_all add: entered_def empty_store_def)
  have fifty: "fl 50 = 50"
    using fl_of_nat [of 50] by simp
  have "fst (saveAnalysis (env_at 7 None None) ''s1'' (Some (result_scored NotANumber)) empty_store) = Inr ()"
    using saveAnalysis_result [OF e, of "result_scored NotANumber" empty_store]
    by (simp add: env_at_def)
  moreover have "averageScore (record_analysis 7 (validated (result_scored NotANumber)) (entered 7 ''s1'' empty_store)) = 50"
    by (simp add: record_analysis_average new totalScore_def or_fifty_def validated_def
        validScore_def result_scored_def fifty Math_round_numeral)
  moreover have "map overallScore (analyses (record_analysis 7 (validated (result_scored v)) (entered 7 ''s1'' empty_store)))
      = [validScore v]" for v
    by (simp add: record_analysis_analyses new slice_last_def validated_def result_scored_def)
  ultimately show ?thesis
    by (simp add: s validScore_def)
qed

section \<open>The session store: a rejected write\<close>

text \<open>
  C10. When the write of line 373 is rejected, \<^verbatim>\<open>saveAnalysis\<close> throws, and the session
  in memory is the one an accepted write would have left: the result is in the history, the
  counter is one higher, the average and \<^verbatim>\<open>lastActivity\<close> are the new ones. Nothing is
  undone; the durable copy is the one \<^verbatim>\<open>getSession\<close> wrote before.
\<close>

theorem C10_not_rolled_back:
  assumes "sessionId \<noteq> []" and "put_get e = None" and "put_save e = Some m"
  shows "fst (saveAnalysis e sessionId (Some a) st) =
           Inl (Error (''Failed to save analysis: '' @ ''Failed to save state: '' @ m))
         \<and> sessions (snd (saveAnalysis e sessionId (Some a) st)) =
             sessions (snd (saveAnalysis (e\<lparr>put_save := None\<rparr>) sessionId (Some a) st))
         \<and> storage (snd (saveAnalysis e sessionId (Some a) st)) =
             Some (AList.update sessionId (entered (now_get e) sessionId st) (sessions st))
         \<and> (\<exists>s. map_of (sessions (snd (saveAnalysis e sessionId (Some a) st))) sessionId = Some s
               \<and> analyses s = slice_last 50 (analyses (entered (now_get e) sessionId st) @ [validated a])
               \<and> totalAnalyses s = totalAnalyses (entered (now_get e) sessionId st) + 1
               \<and> averageScore s =
                   Math_round (fl (totalScore (analyses (entered (now_get e) sessionId st) @ [validated a])
                                   / of_nat (totalAnalyses (entered (now_get e) sessionId st) + 1)))
               \<and> lastActivity s = now_save e)"
proof -
  let ?s = "record_analysis (now_save e) (validated a) (entered (now_get e) sessionId st)"
  have "map_of (sessions (snd (saveAnalysis e sessionId (Some a) st))) sessionId = Some ?s"
    using assms(1,2) by (simp add: saveAnalysis_sessions update_conv')
  moreover have "sessions (snd (saveAnalysis e sessionId (Some a) st)) =
             sessions (snd (saveAnalysis (e\<lparr>put_save := None\<rparr>) sessionId (Some a) st))"
    using assms(1,2) by (simp add: saveAnalysis_sessions)
  moreover have "storage (snd (saveAnalysis e sessionId (Some a) st)) =
             Some (AList.update sessionId (entered (now_get e) sessionId st) (sessions st))"
    using assms
    by (simp add: saveAnalysis_def saveAnalysis_try_def getSession_ok saveState_def)
  ultimately show ?thesis
    using saveAnalysis_result [OF assms(1,2), of a st] assms(3)
    by (simp add: record_analysis_analyses record_analysis_total record_analysis_average
        record_analysis_lastActivity)
qed

theorem C10_not_rolled_back_witness:
  "''s1'' \<noteq> [] \<and> put_get (env_at 7 None (Some ''disk full'')) = None
   \<and> put_save (env_at 7 None (Some ''disk full'')) = Some ''disk full''
   \<and> fst (saveAnalysis (env_at 7 None (Some ''disk full'')) ''s1'' (Some (result_scored (Number 80))) empty_store)
       = Inl (Error ''Failed to save analysis: Failed to save state: disk full'')
   \<and> (\<exists>s. map_of (sessions (snd (saveAnalysis (env_at 7 None (Some ''disk full'')) ''s1'' (Some (result_scored (Number 80))) empty_store))) ''s1'' = Some s
         \<and> map overallScore (analyses s) = [Score 80] \<and> totalAnalyses s = 1 \<and> averageScore s = 80
         \<and> lastActivity s = 7)"
  using C10_not_rolled_back [of "''s1''" "env_at 7 None (Some ''disk full'')" "''disk full''"
      "result_scored (Number 80)" empty_store]
  by (auto simp add: env_at_def result_scored_def empty_store_def entered_def validated_def
      validScore_def slice_last_def totalScore_def or_fifty_def Math_round_numeral
      fl_of_nat [of 80, simplified])

section \<open>The session store: a score of zero\<close>

text \<open>
  C9. A score of 0 passes the check and is stored as 0, and the average counts it as 50.
  A session whose every result has the score 0 has the average 50 as long as it has
  received at most 51 results; with the 52nd the sum covers 51 entries and is divided by
  52, and the average is 49.
\<close>

theorem C9_zeros_after_eviction:
  "map_option averageScore
     (map_of (sessions (saveAll ''s1'' (replicate 52 (env_at 7 None None, result_scored (Number 0))) empty_store)) ''s1'')
   = Some 49
   \<and> map_option (\<lambda>s. map overallScore (analyses s))
     (map_of (sessions (saveAll ''s1'' (replicate 52 (env_at 7 None None, result_scored (Number 0))) empty_store)) ''s1'')
   = Some (replicate 50 (Score 0))
   \<and> map_option averageScore
     (map_of (sessions (saveAll ''s1'' (replicate 51 (env_at 7 None None, result_scored (Number 0))) empty_store)) ''s1'')
   = Some 50"
proof -
  have w: "or_fifty (validScore (Number 0)) = of_nat 50"
    by (simp add: or_fifty_def validScore_def)
  have q52: "Math_round (fl (2550 / 52)) = 49" "Math_round (fl (1275 / 26)) = 49"
    by code_simp+
  have q51: "Math_round (fl 50) = 50"
    using fl_of_nat [of 50] by (simp add: Math_round_numeral)
  have a52: "map_option averageScore
     (map_of (sessions (saveAll ''s1'' (replicate 52 (env_at 7 None None, result_scored (Number 0))) empty_store)) ''s1'')
     = Some 49"
    using saveAll_replicate_average [OF _ w, of 52 7] by (simp add: q52)
  have a51: "map_option averageScore
     (map_of (sessions (saveAll ''s1'' (replicate 51 (env_at 7 None None, result_scored (Number 0))) empty_store)) ''s1'')
     = Some 50"
    using saveAll_replicate_average [OF _ w, of 51 7] by (simp add: q51)
  have "overallScore (validated (result_scored (Number 0))) = Score 0"
    by (simp add: validated_def validScore_def result_scored_def)
  then have h: "map_option (\<lambda>s. map overallScore (analyses s))
     (map_of (sessions (saveAll ''s1'' (replicate 52 (env_at 7 None None, result_scored (Number 0))) empty_store)) ''s1'')
     = Some (replicate 50 (Score 0))"
    using saveAll_replicate(1,3) [of 52 7 "Number 0"] by simp
  from a52 h a51 show ?thesis by simp
qed

section \<open>The session store: the average after eviction\<close>

text \<open>
  C1. The average is the sum over the entries still in the history (at most 51 at that
  point) divided by the count of all results ever saved. After 52 results with the score
  100 it is 98, while the rounded mean of the 52 scores is 100.
\<close>

theorem C1_average_after_eviction:
  "map_option averageScore
     (map_of (sessions (saveAll ''s1'' (replicate 52 (env_at 7 None None, result_scored (Number 100))) empty_store)) ''s1'')
   = Some 98
   \<and> spec_averageScore (map snd (replicate 52 (env_at 7 None None, result_scored (Number 100)))) = 100"
proof -
  have "spec_averageScore (replicate 52 (result_scored (Number 100))) = 100"
    by (simp add: spec_averageScore_def result_scored_def validScore_def sum_list_replicate
        Math_round_numeral)
  moreover have w: "or_fifty (validScore (Number 100)) = of_nat 100"
    by (simp add: or_fifty_def validScore_def)
  moreover have q: "Math_round (fl (5100 / 52)) = 98" "Math_round (fl (1275 / 13)) = 98"
    by code_simp+
  moreover have "map_option averageScore
     (map_of (sessions (saveAll ''s1'' (replicate 52 (env_at 7 None None, result_scored (Number 100))) empty_store)) ''s1'')
     = Some 98"
    using saveAll_replicate_average [OF _ w, of 52 7] by (simp add: q)
  ultimately show ?thesis by simp
qed

section \<open>The session store: cleanup\<close>

text \<open>
  C8. \<^verbatim>\<open>cleanupOldSessions\<close> leaves in the map exactly the sessions with
  \<open>now - lastActivity \<le> maxAgeMs\<close>, unchanged and in their order, and removes the others.
  It returns the number of sessions removed; when some were removed and the write that
  follows is rejected it throws instead, the sessions being removed from memory all the
  same. On a store with no session it returns 0 and writes nothing, so it cannot fail.
\<close>

theorem C8_cleanup_removes_idle:
  assumes "distinct (map fst (sessions st))"
  shows "sessions (snd (cleanupOldSessions now put maxAgeMs st)) =
           filter (\<lambda>entry. \<not> now - lastActivity (snd entry) > maxAgeMs) (sessions st)
         \<and> fst (cleanupOldSessions now put maxAgeMs st) =
             (case put of
                None \<Rightarrow> Inr (length (filter (\<lambda>entry. now - lastActivity (snd entry) > maxAgeMs) (sessions st)))
              | Some msg \<Rightarrow>
                  if filter (\<lambda>entry. now - lastActivity (snd entry) > maxAgeMs) (sessions st) = []
                  then Inr 0
                  else Inl (Error (''Failed to save state: '' @ msg)))
         \<and> cleanupOldSessions now put maxAgeMs (st\<lparr>sessions := []\<rparr>) = (Inr 0, st\<lparr>sessions := []\<rparr>)"
proof -
  have f: "fold (cleanup_step now maxAgeMs) (sessions st) (sessions st, 0) =
     (filter (\<lambda>entry. \<not> now - lastActivity (snd entry) > maxAgeMs) (sessions st),
      length (filter (\<lambda>entry. now - lastActivity (snd entry) > maxAgeMs) (sessions st)))"
    using cleanup_fold_distinct [OF assms, of now maxAgeMs] by (simp add: expired_def)
  show ?thesis
    by (cases put)
       (simp_all add: cleanupOldSessions_def f saveState_def Let_def)
qed

theorem C8_cleanup_removes_idle_witness:
  "distinct (map fst (sessions \<lparr>sessions = [(''a'', session_at ''a'' 10), (''b'', session_at ''b'' 90)], storage = None\<rparr>))
   \<and> map fst (sessions (snd (cleanupOldSessions 100 None 50
         \<lparr>sessions = [(''a'', session_at ''a'' 10), (''b'', session_at ''b'' 90)], storage = None\<rparr>))) = [''b'']
   \<and> fst (cleanupOldSessions 100 None 50
         \<lparr>sessions = [(''a'', session_at ''a'' 10), (''b'', session_at ''b'' 90)], storage = None\<rparr>) = Inr 1"
  using C8_cleanup_removes_idle [of "\<lparr>sessions = [(''a'', session_at ''a'' 10), (''b'', session_at ''b'' 90)], storage = None\<rparr>" 100 None 50]
  by (simp add: session_at_def)

section \<open>The analysis workflow: every call settles\<close>

text \<open>
  C3. Whatever the three analysis calls do, \<^verbatim>\<open>performParallelAnalysis\<close> returns a result
  and throws nothing. The entry of a requested aspect is decided by that aspect's own call
  alone: its value when the call is fulfilled, the error entry of that aspect when it is
  rejected. So the failure of one call neither stops nor changes the others. The calls of
  the chat agent, which are joined by \<^verbatim>\<open>Promise.all\<close>, never reject: a failure of the model
  is returned as the text of that aspect.
\<close>

theorem C3_settle_all:
  "(\<exists>r. performParallelAnalysis A input = Inr r
     \<and> (Security \<in> set (analysisTypes input) \<longrightarrow>
          security r = Some (case analyzeSecurity A (code input) of
                               fulfilled v \<Rightarrow> Analysis v
                             | rejected reason \<Rightarrow> ErrorEntry ''Security analysis failed''))
     \<and> (Performance \<in> set (analysisTypes input) \<longrightarrow>
          performance r = Some (case analyzePerformance A (code input) of
                                  fulfilled v \<Rightarrow> Analysis v
                                | rejected reason \<Rightarrow> ErrorEntry ''Performance analysis failed''))
     \<and> (Quality \<in> set (analysisTypes input) \<longrightarrow>
          quality r = Some (case analyzeQuality A (code input) of
                              fulfilled v \<Rightarrow> Analysis v
                            | rejected reason \<Rightarrow> ErrorEntry ''Quality analysis failed'')))
     \<and> \<not> isl (analyzeWithWorkersAI outcome)
     \<and> analyzeWithWorkersAI (ai_rejects m) = Inr (''Analysis error: '' @ m)"
  by (simp add: performParallelAnalysis_eq entry_of_def analyzeWithWorkersAI_def
      split: ai_outcome.splits option.splits)

theorem C3_settle_all_witness:
  "analyzeWithWorkersAI (ai_rejects ''timeout'') = Inr ''Analysis error: timeout''
   \<and> (\<exists>r. performParallelAnalysis security_down (workflow_input ''x = 1'' [Security, Performance, Quality]) = Inr r
     \<and> security r = Some (ErrorEntry ''Security analysis failed'')
     \<and> performance r = Some (case analyzePerformance workflow_analyzers ''x = 1'' of
                               fulfilled v \<Rightarrow> Analysis v | rejected reason \<Rightarrow> ErrorEntry [])
     \<and> map_option (\<lambda>e. case e of Analysis v \<Rightarrow> score v | ErrorEntry m \<Rightarrow> 0) (quality r) = Some 85)"
  using C3_settle_all [of security_down "workflow_input ''x = 1'' [Security, Performance, Quality]"
      "ai_rejects ''timeout''" "''timeout''"]
  by (auto simp add: security_down_def workflow_input_def workflow_analyzers_def)


section \<open>The analysis workflow: no input is refused\<close>

text \<open>
  C2 (as amended). For every code that is not empty and every list of requested aspects,
  the empty list too, \<^verbatim>\<open>performParallelAnalysis\<close> returns a result and throws nothing. The
  result has an entry for exactly the requested aspects, and a rejected analysis call is
  never thrown on: it is the error entry of its aspect.
\<close>

theorem C2_never_throws:
  assumes "code input \<noteq> []"
  shows "\<exists>r. performParallelAnalysis A input = Inr r
           \<and> (security r \<noteq> None \<longleftrightarrow> Security \<in> set (analysisTypes input))
           \<and> (performance r \<noteq> None \<longleftrightarrow> Performance \<in> set (analysisTypes input))
           \<and> (quality r \<noteq> None \<longleftrightarrow> Quality \<in> set (analysisTypes input))
           \<and> (\<forall>reason. analyzeSecurity A (code input) = rejected reason \<longrightarrow> Security \<in> set (analysisTypes input)
                  \<longrightarrow> security r = Some (ErrorEntry ''Security analysis failed''))
           \<and> (\<forall>reason. analyzePerformance A (code input) = rejected reason \<longrightarrow> Performance \<in> set (analysisTypes input)
                  \<longrightarrow> performance r = Some (ErrorEntry ''Performance analysis failed''))
           \<and> (\<forall>reason. analyzeQuality A (code input) = rejected reason \<longrightarrow> Quality \<in> set (analysisTypes input)
                  \<longrightarrow> quality r = Some (ErrorEntry ''Quality analysis failed''))"
  by (auto simp add: performParallelAnalysis_eq entry_of_def)

theorem C2_never_throws_witness:
  "code (workflow_input ''x = 1'' [Security]) \<noteq> []
   \<and> (\<exists>r. performParallelAnalysis security_down (workflow_input ''x = 1'' [Security]) = Inr r
        \<and> security r = Some (ErrorEntry ''Security analysis failed'')
        \<and> performance r = None \<and> quality r = None)"
  using C2_never_throws [of "workflow_input ''x = 1'' [Security]" security_down]
  by (auto simp add: security_down_def workflow_input_def workflow_analyzers_def)

text \<open>
  C2 as stated fails: asked for no aspect at all, the dispatcher returns the empty result
  object, not an error.
\<close>

theorem C2_counterexample:
  "analysisTypes (workflow_input ''x = 1'' []) = []
   \<and> performParallelAnalysis workflow_analyzers (workflow_input ''x = 1'' [])
       = Inr \<lparr>security = None, performance = None, quality = None\<rparr>"
  by (simp add: performParallelAnalysis_def workflow_input_def)

section \<open>The write-through: a rejected write\<close>

text \<open>
  C7. When a write to durable storage is rejected, a direct \<^verbatim>\<open>saveAnalysis\<close> call
  returns the error to its caller. The agent's \<^verbatim>\<open>saveAnalysisResult\<close>, which saves through
  the same method after an analysis, returns normally all the same and only writes the
  error to the console, and \<^verbatim>\<open>performCodeAnalysis\<close> goes on to stream the whole report.
\<close>

theorem C7_write_through_swallows:
  assumes "sessionId \<noteq> []" and "put_get e \<noteq> None \<or> put_save e \<noteq> None"
  shows "fst (saveAnalysis e sessionId (Some a) st) =
           Inl (Error (''Failed to save analysis: '' @ ''Failed to save state: '' @
                  (case put_get e of Some m \<Rightarrow> m | None \<Rightarrow> (case put_save e of Some m \<Rightarrow> m | None \<Rightarrow> []))))
         \<and> fst (saveAnalysisResult e r st) = Inr ()
         \<and> fst (snd (saveAnalysisResult e r st)) =
             [''Error saving analysis result: Failed to save analysis: '']
         \<and> fst (performCodeAnalysis e report st) =
             map (\<lambda>chunk. chunk @ [CHR 0x0A]) (split_lines report)"
  using saveAnalysis_rejected [OF assms] saveAnalysisResult_returns saveAnalysisResult_console [OF assms(2)]
    performCodeAnalysis_stream
  by simp

theorem C7_write_through_swallows_witness:
  "''s1'' \<noteq> [] \<and> put_save (env_at 7 None (Some ''disk full'')) \<noteq> None
   \<and> fst (saveAnalysis (env_at 7 None (Some ''disk full'')) ''s1'' (Some (result_scored (Number 80))) empty_store)
       = Inl (Error ''Failed to save analysis: Failed to save state: disk full'')
   \<and> fst (saveAnalysisResult (env_at 7 None (Some ''disk full'')) analysisResult empty_store) = Inr ()
   \<and> fst (performCodeAnalysis (env_at 7 None (Some ''disk full'')) (''Report'' @ [CHR 0x0A] @ ''done'') empty_store)
       = [''Report'' @ [CHR 0x0A], ''done'' @ [CHR 0x0A]]"
  using C7_write_through_swallows [of "''s1''" "env_at 7 None (Some ''disk full'')"
      "result_scored (Number 80)" empty_store analysisResult "''Report'' @ [CHR 0x0A] @ ''done''"]
  by (simp add: env_at_def)

section \<open>The content classifier: the rule it applies\<close>

text \<open>
  C4 (as amended). \<^verbatim>\<open>isCodeAnalysisRequest\<close> of \<^verbatim>\<open>src/index.ts\<close> is true exactly when the
  text holds two fences of three backticks one after the other, or a backtick, one or more
  characters that are no backtick, and a backtick, or, whatever the case of its letters, one
  of the six words analyze, review, check, security, performance, quality, or, as written,
  one of the eight tokens function, class, def, const, let, var, import, export. It is false
  otherwise, so for the empty text. As a function of the text alone it has no effect and
  gives the same answer each time.
\<close>

theorem C4_classifier_rule:
  "(isCodeAnalysisRequest content \<longleftrightarrow>
      (\<exists>u v w. content = u @ fence @ v @ fence @ w)
      \<or> (\<exists>u v w. content = u @ [CHR 0x60] @ v @ [CHR 0x60] @ w \<and> v \<noteq> [] \<and> CHR 0x60 \<notin> set v)
      \<or> (\<exists>k\<in>set [''analyze'', ''review'', ''check'', ''security'', ''performance'', ''quality''].
            \<exists>u v w. content = u @ v @ w \<and> map Canonicalize v = map Canonicalize k)
      \<or> (\<exists>t\<in>set [''function'', ''class'', ''def'', ''const'', ''let'', ''var'', ''import'', ''export''].
            \<exists>u w. content = u @ t @ w))
   \<and> \<not> isCodeAnalysisRequest []"
proof
  show "isCodeAnalysisRequest content \<longleftrightarrow>
      (\<exists>u v w. content = u @ fence @ v @ fence @ w)
      \<or> (\<exists>u v w. content = u @ [CHR 0x60] @ v @ [CHR 0x60] @ w \<and> v \<noteq> [] \<and> CHR 0x60 \<notin> set v)
      \<or> (\<exists>k\<in>set [''analyze'', ''review'', ''check'', ''security'', ''performance'', ''quality''].
            \<exists>u v w. content = u @ v @ w \<and> map Canonicalize v = map Canonicalize k)
      \<or> (\<exists>t\<in>set [''function'', ''class'', ''def'', ''const'', ''let'', ''var'', ''import'', ''export''].
            \<exists>u w. content = u @ t @ w)"
    unfolding isCodeAnalysisRequest_def codePatterns_def list_ex_Cons_iff list_ex_Nil_iff
      test_fenced test_inline test_keywords_i test_tokens
    by (simp only: disj_assoc simp_thms)
  show "\<not> isCodeAnalysisRequest []"
    by code_simp
qed

theorem C4_classifier_rule_witness:
  "isCodeAnalysisRequest ''Please CHECK'' \<and> \<not> isCodeAnalysisRequest ''hello there''"
proof -
  have "''Please CHECK'' = ''Please '' @ ''CHECK'' @ [] \<and> map Canonicalize ''CHECK'' = map Canonicalize ''check''"
    by (simp add: Canonicalize_def)
  then have "\<exists>k\<in>set [''analyze'', ''review'', ''check'', ''security'', ''performance'', ''quality''].
            \<exists>u v w. ''Please CHECK'' = u @ v @ w \<and> map Canonicalize v = map Canonicalize k"
    by (metis list.set_intros(1,2))
  then have "isCodeAnalysisRequest ''Please CHECK''"
    using C4_classifier_rule [of "''Please CHECK''"] by blast
  moreover have "\<not> isCodeAnalysisRequest ''hello there''"
    by code_simp
  ultimately show ?thesis by simp
qed

text \<open>
  C4 as stated fails: the text \<^verbatim>\<open>audit\<close> holds one of the twelve keywords of the
  specification and \<^verbatim>\<open>src/index.ts\<close> answers no; the text \<^verbatim>\<open>let x\<close> holds one of its
  eight tokens and the copy in \<^verbatim>\<open>lib/utils.ts\<close> answers no.
\<close>

theorem C4_counterexample:
  "spec_isAnalysisRequest ''audit'' \<and> \<not> isCodeAnalysisRequest ''audit''
   \<and> spec_isAnalysisRequest ''let x'' \<and> \<not> isCodeAnalysisRequest_utils ''let x''"
proof -
  have "spec_isAnalysisRequest ''audit''" "spec_isAnalysisRequest ''let x''"
    by (simp_all add: spec_isAnalysisRequest_def toLowerCase_def)
  moreover have "\<not> isCodeAnalysisRequest ''audit''"
    by code_simp
  moreover have "\<not> isCodeAnalysisRequest_utils ''let x''"
    by code_simp
  ultimately show ?thesis by simp
qed


end
